theory Spec2Isabelle
  imports Main "HOL-Library.Word"
begin

section \<open>Data model\<close>

text \<open>
  The conversation snapshot of the application (\<^verbatim>\<open>type AppState\<close> and the types it is built
  from). Three of the source's types have a property called \<^verbatim>\<open>username\<close>; record fields are
  global names here, so the one of \<^verbatim>\<open>Like\<close> is \<open>like_username\<close> and the one of \<^verbatim>\<open>Post\<close> is
  \<open>post_username\<close>. Strings are lists of characters, timestamps and image indexes are integers
  (\<^verbatim>\<open>now()\<close> is a number of milliseconds).
\<close>

type_synonym PostId = string
type_synonym UsernameType = string
type_synonym Timestamp = int

record Like =
  like_username :: string
  likedAt :: Timestamp

record Post =
  postId :: PostId
  post_username :: UsernameType
  createdAt :: Timestamp
  content :: string
  replyPostIds :: "PostId list"
  likes :: "Like list"

record User =
  username :: string
  imageIndex :: int
  encryptedUsername :: string

record AppState =
  users :: "User list"
  rootPostIds :: "PostId list"
  allPosts :: "Post list"

text \<open>
  What a function of the source throws: \<^verbatim>\<open>new Error(message)\<close> of the repository's own code,
  and the exceptions of the browser interfaces it calls.
\<close>

datatype error =
    Error string
  | DOMException string
  | TypeError string
  | SyntaxError string

section \<open>Fragment parsing\<close>

text \<open>
  \<^verbatim>\<open>String.prototype.split\<close> with a separator of one character: the pieces between all
  occurrences of the separator, in order. The empty string gives one empty piece.
\<close>

fun js_split :: "char \<Rightarrow> string \<Rightarrow> string list" where
  "js_split sep [] = [[]]"
| "js_split sep (c # cs) =
     (if c = sep then [] # js_split sep cs
      else (case js_split sep cs of
              [] \<Rightarrow> [[c]]
            | piece # pieces \<Rightarrow> (c # piece) # pieces))"

text \<open>
  \<^verbatim>\<open>const [encryptedBody, key = null] = hash.split(":")\<close>: the first piece, and the second
  piece when there is one (\<^verbatim>\<open>null\<close> otherwise); further pieces are dropped. The array of
  pieces is never empty (\<open>js_split_not_Nil\<close>), so the first case is never taken.
\<close>

definition appStateGetHashBodyAndKey :: "string \<Rightarrow> string \<times> string option" where
  "appStateGetHashBodyAndKey hash =
     (case js_split (CHR '':'') hash of
        [] \<Rightarrow> ([], None)
      | [encryptedBody] \<Rightarrow> (encryptedBody, None)
      | encryptedBody # key # _ \<Rightarrow> (encryptedBody, Some key))"

definition appStateHashHasKey :: "string \<Rightarrow> bool" where
  "appStateHashHasKey hash = (case appStateGetHashBodyAndKey hash of (_, hashKey) \<Rightarrow> hashKey \<noteq> None)"

section \<open>Posts and likes\<close>

definition nullthrows :: "'a option \<Rightarrow> string option \<Rightarrow> error + 'a" where
  "nullthrows value message =
     (case value of
        None \<Rightarrow> Inl (Error (''nullthrows: '' @
                  (case message of Some m \<Rightarrow> m | None \<Rightarrow> ''value is null or undefined'')))
      | Some v \<Rightarrow> Inr v)"

definition getPost :: "AppState \<Rightarrow> PostId \<Rightarrow> error + Post" where
  "getPost appState pid =
     nullthrows (find (\<lambda>q. postId q = pid) (allPosts appState))
                (Some (''Could not find post: '' @ pid))"

text \<open>
  \<^verbatim>\<open>getPost(draft, postId)\<close> returns the element of \<^verbatim>\<open>draft.allPosts\<close> itself, so what
  \<^verbatim>\<open>togglePostLike\<close> assigns to \<^verbatim>\<open>postDraft.likes\<close> changes the first post of the list that
  has this id, and no other. \<open>modifyFirst\<close> is that update of a list in place.
\<close>

fun modifyFirst :: "('a \<Rightarrow> bool) \<Rightarrow> ('a \<Rightarrow> 'a) \<Rightarrow> 'a list \<Rightarrow> 'a list" where
  "modifyFirst P f [] = []"
| "modifyFirst P f (x # xs) = (if P x then f x # xs else x # modifyFirst P f xs)"

text \<open>
  The outcome of \<^verbatim>\<open>togglePostLike\<close> on a draft: without an acting user it asks for a log in and
  leaves the draft alone; \<^verbatim>\<open>getPost\<close> may throw; otherwise the draft is updated. The time
  \<^verbatim>\<open>now()\<close> read for a new like is an argument.
\<close>

datatype toggle_outcome =
    NeedLogIn
  | Threw error
  | Updated AppState

definition togglePostLike :: "User option \<Rightarrow> Timestamp \<Rightarrow> AppState \<Rightarrow> PostId \<Rightarrow> toggle_outcome" where
  "togglePostLike actingUser now appState pid =
     (case actingUser of
        None \<Rightarrow> NeedLogIn
      | Some u \<Rightarrow>
          (case getPost appState pid of
             Inl e \<Rightarrow> Threw e
           | Inr postDraft \<Rightarrow>
               if find (\<lambda>l. username u = like_username l) (likes postDraft) \<noteq> None
               then Updated (appState\<lparr>allPosts :=
                      modifyFirst (\<lambda>q. postId q = pid)
                        (\<lambda>p. p\<lparr>likes := filter (\<lambda>l. username u \<noteq> like_username l) (likes p)\<rparr>)
                        (allPosts appState)\<rparr>)
               else Updated (appState\<lparr>allPosts :=
                      modifyFirst (\<lambda>q. postId q = pid)
                        (\<lambda>p. p\<lparr>likes := likes p @ [\<lparr>like_username = username u, likedAt = now\<rparr>]\<rparr>)
                        (allPosts appState)\<rparr>)))"

text \<open>The usernames that like a post, and the invariant that nobody likes a post twice.\<close>

definition likers :: "Post \<Rightarrow> string set" where
  "likers p = like_username ` set (likes p)"

definition likes_once :: "AppState \<Rightarrow> bool" where
  "likes_once appState = list_all (\<lambda>p. distinct (map like_username (likes p))) (allPosts appState)"

text \<open>The likes of a post after the acting user \<open>u\<close> toggled their like at time \<open>now\<close>.\<close>

definition toggled_likes :: "User \<Rightarrow> Timestamp \<Rightarrow> Like list \<Rightarrow> Like list" where
  "toggled_likes u now ls =
     (if username u \<in> like_username ` set ls
      then filter (\<lambda>l. like_username l \<noteq> username u) ls
      else ls @ [\<lparr>like_username = username u, likedAt = now\<rparr>])"

section \<open>Base64\<close>

text \<open>
  The standard base64 encoding of \<^verbatim>\<open>btoa\<close> and \<^verbatim>\<open>atob\<close>: three bytes give four characters of
  the alphabet, and a last group of one or two bytes is padded with \<open>=\<close>. A binary string is a
  string whose characters are the bytes. \<^verbatim>\<open>atob\<close> fails (\<open>None\<close>) on a character outside the
  alphabet, on misplaced padding and on a length that is no multiple of four.
\<close>

type_synonym bytes = "8 word list"

definition base64_alphabet :: string where
  "base64_alphabet = ''ABCDEFGHIJKLMNOPQRSTUVWXYZabcdefghijklmnopqrstuvwxyz0123456789+/''"

definition sextet_char :: "nat \<Rightarrow> char" where
  "sextet_char n = base64_alphabet ! n"

fun indexOf :: "'a list \<Rightarrow> 'a \<Rightarrow> nat option" where
  "indexOf [] c = None"
| "indexOf (x # xs) c = (if x = c then Some 0 else map_option Suc (indexOf xs c))"

definition char_sextet :: "char \<Rightarrow> nat option" where
  "char_sextet c = indexOf base64_alphabet c"

fun btoa :: "string \<Rightarrow> string" where
  "btoa [] = []"
| "btoa [a] =
     (let x = of_char a
      in [sextet_char (x div 4), sextet_char ((x mod 4) * 16), CHR ''='', CHR ''=''])"
| "btoa [a, b] =
     (let x = of_char a; y = of_char b
      in [sextet_char (x div 4), sextet_char ((x mod 4) * 16 + y div 16),
          sextet_char ((y mod 16) * 4), CHR ''=''])"
| "btoa (a # b # c # rest) =
     (let x = of_char a; y = of_char b; z = of_char c
      in [sextet_char (x div 4), sextet_char ((x mod 4) * 16 + y div 16),
          sextet_char ((y mod 16) * 4 + z div 64), sextet_char (z mod 64)] @ btoa rest)"

fun atob :: "string \<Rightarrow> string option" where
  "atob [] = Some []"
| "atob (c1 # c2 # c3 # c4 # rest) =
     (if rest = [] \<and> c3 = CHR ''='' \<and> c4 = CHR ''=''
      then (case (char_sextet c1, char_sextet c2) of
              (Some s1, Some s2) \<Rightarrow> Some [char_of (s1 * 4 + s2 div 16)]
            | _ \<Rightarrow> None)
      else if rest = [] \<and> c4 = CHR ''=''
      then (case (char_sextet c1, char_sextet c2, char_sextet c3) of
              (Some s1, Some s2, Some s3) \<Rightarrow>
                Some [char_of (s1 * 4 + s2 div 16), char_of ((s2 mod 16) * 16 + s3 div 4)]
            | _ \<Rightarrow> None)
      else (case (char_sextet c1, char_sextet c2, char_sextet c3, char_sextet c4) of
              (Some s1, Some s2, Some s3, Some s4) \<Rightarrow>
                map_option
                  (\<lambda>tail. char_of (s1 * 4 + s2 div 16) # char_of ((s2 mod 16) * 16 + s3 div 4) #
                           char_of ((s3 mod 4) * 64 + s4) # tail)
                  (atob rest)
            | _ \<Rightarrow> None))"
| "atob _ = None"

text \<open>\<^verbatim>\<open>String.fromCharCode.apply(null, bytes)\<close>: the binary string of a byte array, and back.\<close>

definition String_fromCharCode :: "bytes \<Rightarrow> string" where
  "String_fromCharCode buffer = map (\<lambda>b. char_of (unat b)) buffer"

definition charCodes :: "string \<Rightarrow> bytes" where
  "charCodes binary = map of_char binary"

text \<open>
  Modelled from the spec: \<^verbatim>\<open>lib/base64\<close> (\<^verbatim>\<open>arrayBufferToBase64\<close>, \<^verbatim>\<open>base64ToArrayBuffer\<close>) is
  imported by the sources but is not among them. The specification calls it a base64-family
  transcoding of bytes to text and back, mutually inverse on every byte sequence, whose
  decoding fails on an invalid alphabet or padding; it is taken to be the standard base64
  above.
\<close>

definition arrayBufferToBase64 :: "bytes \<Rightarrow> string" where
  "arrayBufferToBase64 buffer = btoa (String_fromCharCode buffer)"

definition base64ToArrayBuffer :: "string \<Rightarrow> error + bytes" where
  "base64ToArrayBuffer base64 =
     (case atob base64 of
        None \<Rightarrow> Inl (DOMException ''InvalidCharacterError'')
      | Some binary \<Rightarrow> Inr (charCodes binary))"

section \<open>The browser\<close>

text \<open>
  The interfaces of the browser that the program calls are parameters of the model: key
  import, encryption and decryption of \<^verbatim>\<open>window.crypto.subtle\<close>, \<^verbatim>\<open>TextEncoder\<close> and
  \<^verbatim>\<open>TextDecoder\<close>, the compression streams, and \<^verbatim>\<open>JSON\<close>. An interface that can throw
  returns a sum, with the exception on the left. \<^verbatim>\<open>JSON.parse\<close> is given the type of the
  snapshot, as the program gives it: the program does not look at the shape of what it has
  parsed. The cipher is a function of its parameters, the key and the data: AES-GCM has no
  other input.
\<close>

record JsonWebKey =
  jwk_k :: string
  jwk_alg :: string
  jwk_ext :: bool
  jwk_key_ops :: "string list"
  jwk_kty :: string

record KeyAlgorithm =
  alg_name :: string
  alg_length :: nat

record AesGcmParams =
  params_name :: string
  params_iv :: bytes

record CryptoKey =
  key_algorithm :: KeyAlgorithm
  key_extractable :: bool
  key_usages :: "string list"
  key_data :: bytes

record browser =
  subtle_importKey :: "string \<Rightarrow> JsonWebKey \<Rightarrow> KeyAlgorithm \<Rightarrow> bool \<Rightarrow> string list \<Rightarrow> error + CryptoKey"
  subtle_encrypt :: "AesGcmParams \<Rightarrow> CryptoKey \<Rightarrow> bytes \<Rightarrow> error + bytes"
  subtle_decrypt :: "AesGcmParams \<Rightarrow> CryptoKey \<Rightarrow> bytes \<Rightarrow> error + bytes"
  TextEncoder_encode :: "string \<Rightarrow> bytes"
  TextDecoder_decode :: "bytes \<Rightarrow> string"
  CompressionStream :: "string \<Rightarrow> bytes \<Rightarrow> bytes"
  DecompressionStream :: "string \<Rightarrow> bytes \<Rightarrow> error + bytes"
  JSON_stringify :: "AppState \<Rightarrow> string"
  JSON_parse :: "string \<Rightarrow> error + AppState"

text \<open>\<^verbatim>\<open>await\<close> of a promise: a rejection is rethrown, a value is passed on.\<close>

definition await :: "error + 'a \<Rightarrow> ('a \<Rightarrow> error + 'b) \<Rightarrow> error + 'b" where
  "await promise continue = (case promise of Inl e \<Rightarrow> Inl e | Inr v \<Rightarrow> continue v)"

definition Uint8Array :: "nat \<Rightarrow> bytes" where
  "Uint8Array n = replicate n 0"

section \<open>Login keys and the cipher layer\<close>

text \<open>
  A login key is the text of a JSON web key. It is imported as an AES-GCM key and used to
  encrypt and decrypt under the initialisation vector \<^verbatim>\<open>new Uint8Array(12)\<close>.
\<close>

record LogInKeyConfig =
  algorithm :: KeyAlgorithm
  extractable :: bool
  usage :: "string list"

definition LOG_IN_KEY_CONFIG :: LogInKeyConfig where
  "LOG_IN_KEY_CONFIG =
     \<lparr>algorithm = \<lparr>alg_name = ''AES-GCM'', alg_length = 128\<rparr>,
      extractable = True,
      usage = [''encrypt'', ''decrypt'']\<rparr>"

definition logInKeyToCryptoKey :: "browser \<Rightarrow> string \<Rightarrow> error + CryptoKey" where
  "logInKeyToCryptoKey W logInKey =
     subtle_importKey W ''jwk''
       \<lparr>jwk_k = logInKey, jwk_alg = ''A128GCM'', jwk_ext = True,
        jwk_key_ops = [''encrypt'', ''decrypt''], jwk_kty = ''oct''\<rparr>
       (algorithm LOG_IN_KEY_CONFIG) (extractable LOG_IN_KEY_CONFIG) (usage LOG_IN_KEY_CONFIG)"

definition logInKeyDecrypt :: "browser \<Rightarrow> string \<Rightarrow> string \<Rightarrow> error + string" where
  "logInKeyDecrypt W logInKey encryptedBase64 =
     await (logInKeyToCryptoKey W logInKey) (\<lambda>cryptoKey.
     await (base64ToArrayBuffer encryptedBase64) (\<lambda>encryptedBytes.
     await (subtle_decrypt W \<lparr>params_name = ''AES-GCM'', params_iv = Uint8Array 12\<rparr>
              cryptoKey encryptedBytes) (\<lambda>decrypted2.
     Inr (TextDecoder_decode W decrypted2))))"

definition logInKeyEncrypt :: "browser \<Rightarrow> string \<Rightarrow> string \<Rightarrow> error + string" where
  "logInKeyEncrypt W logInKey value =
     await (logInKeyToCryptoKey W logInKey) (\<lambda>cryptoKey.
     await (subtle_encrypt W \<lparr>params_name = ''AES-GCM'', params_iv = Uint8Array 12\<rparr>
              cryptoKey (TextEncoder_encode W value)) (\<lambda>encryptedBytes.
     Inr (arrayBufferToBase64 encryptedBytes)))"

section \<open>Compression\<close>

text \<open>The module \<^verbatim>\<open>lib/compression\<close>: text to gzip bytes and back, and the same through base64.\<close>

definition compress :: "browser \<Rightarrow> string \<Rightarrow> string \<Rightarrow> bytes" where
  "compress W str encoding = CompressionStream W encoding (TextEncoder_encode W str)"

definition compressToBase64 :: "browser \<Rightarrow> string \<Rightarrow> string" where
  "compressToBase64 W str = arrayBufferToBase64 (compress W str ''gzip'')"

definition decompress :: "browser \<Rightarrow> bytes \<Rightarrow> string \<Rightarrow> error + string" where
  "decompress W byteArray encoding =
     await (DecompressionStream W encoding byteArray) (\<lambda>arrayBuffer.
     Inr (TextDecoder_decode W arrayBuffer))"

definition decompressBase64 :: "browser \<Rightarrow> string \<Rightarrow> error + string" where
  "decompressBase64 W base64 =
     await (base64ToArrayBuffer base64) (\<lambda>byteArray. decompress W byteArray ''gzip'')"

section \<open>Snapshots to fragments and back\<close>

text \<open>
  The fragment of a snapshot is the encrypted base64 text of its compressed JSON text; the
  keyed fragment has the key after a \<open>:\<close>.
\<close>

definition appStateToHashWithoutKey :: "browser \<Rightarrow> AppState \<Rightarrow> string \<Rightarrow> error + string" where
  "appStateToHashWithoutKey W appState logInKey =
     (let json = JSON_stringify W appState;
          compressed = compressToBase64 W json
      in await (logInKeyEncrypt W logInKey compressed) (\<lambda>encryptedHashBody.
         Inr encryptedHashBody))"

definition appStateToHashWithKey :: "browser \<Rightarrow> AppState \<Rightarrow> string \<Rightarrow> error + string" where
  "appStateToHashWithKey W appState logInKey =
     await (appStateToHashWithoutKey W appState logInKey) (\<lambda>hashBody.
     Inr (hashBody @ '':'' @ logInKey))"

definition appStateFromHashWithoutKey :: "browser \<Rightarrow> string \<Rightarrow> string \<Rightarrow> error + AppState" where
  "appStateFromHashWithoutKey W encryptedHashBody logInKey =
     await (logInKeyDecrypt W logInKey encryptedHashBody) (\<lambda>compressed.
     await (decompressBase64 W compressed) (\<lambda>json.
     JSON_parse W json))"

definition appStateFromHashWithKey :: "browser \<Rightarrow> string \<Rightarrow> error + AppState" where
  "appStateFromHashWithKey W hash =
     (case appStateGetHashBodyAndKey hash of
        (encryptedHashBody, hashKey) \<Rightarrow>
          (case hashKey of
             None \<Rightarrow> Inl (Error ''This function is meant to be used with a hash that has a key.'')
           | Some key \<Rightarrow> appStateFromHashWithoutKey W encryptedHashBody key))"

section \<open>Logging in\<close>

text \<open>
  The handler \<^verbatim>\<open>onLogIn\<close> of the log in dialog. It ends in one of three ways: a user record
  is made the acting user and the dialog is hidden; the alert is shown; or a derivation of
  a proof throws, the promise is rejected and \<^verbatim>\<open>promiseDone\<close> writes the error to the console.
\<close>

datatype login_outcome =
    LoggedIn User
  | Alert string
  | Rejected error

fun onLogIn_loop :: "browser \<Rightarrow> User list \<Rightarrow> string \<Rightarrow> login_outcome" where
  "onLogIn_loop W [] logInKey = Alert ''Log in key is not valid.''"
| "onLogIn_loop W (user # rest) logInKey =
     (case logInKeyEncrypt W logInKey (username user) of
        Inl e \<Rightarrow> Rejected e
      | Inr encrypted \<Rightarrow>
          if encrypted = encryptedUsername user then LoggedIn user
          else onLogIn_loop W rest logInKey)"

definition onLogIn :: "browser \<Rightarrow> AppState \<Rightarrow> string \<Rightarrow> login_outcome" where
  "onLogIn W appState logInKey = onLogIn_loop W (users appState) logInKey"

text \<open>
  The snapshot the program starts from. \<^verbatim>\<open>now()\<close> is read once, when the module is loaded;
  the time of that reading is the argument. The emoji and the line breaks of the text are
  written as their UTF-8 bytes.
\<close>

definition initialAppState :: "Timestamp \<Rightarrow> AppState" where
  "initialAppState loadedAt =
     \<lparr>users = [\<lparr>username = ''iamyarn'', imageIndex = 0, encryptedUsername = ''''\<rparr>],
      rootPostIds = [''xrj391''],
      allPosts =
        [\<lparr>postId = ''xrj391'',
          post_username = ''iamyarn'',
          createdAt = loadedAt,
          content = ''Hi I'm Yarn! '' @ [CHR 0xF0, CHR 0x9F, CHR 0x98, CHR 0x8A, CHR 0x0A] @
                    ''A serverless, end-to-end encrypted, thread experience.'' @ [CHR 0x0A] @
                    ''Feel free to start a new thread or reply to this one.'' @ [CHR 0x0A] @
                    ''Don't forget to share! '',
          replyPostIds = [],
          likes = []\<rparr>]\<rparr>"

section \<open>Loading a thread from the fragment\<close>

text \<open>
  The state of the hook \<^verbatim>\<open>useHashAppState\<close>: the fragment of the address, the snapshot held in
  the component state, the two refs, and what the user and the console have been shown (the
  texts passed to \<^verbatim>\<open>alert\<close>, and the errors that \<^verbatim>\<open>promiseDone\<close> writes with
  \<^verbatim>\<open>console.error\<close> or that reject a promise nobody handles).
\<close>

record HashAppState =
  location_hash :: string
  appStateValue :: AppState
  isLoadedRef :: bool
  sessionKeyRef :: "string option"
  alerts :: "string list"
  consoleErrors :: "error list"

definition setAppState :: "browser \<Rightarrow> AppState \<Rightarrow> HashAppState \<Rightarrow> HashAppState" where
  "setAppState W appState st =
     (if \<not> isLoadedRef st
      then st\<lparr>alerts := alerts st @ [''Error! Attempted to setAppSate before appState was loaded.'']\<rparr>
      else (case await (nullthrows (sessionKeyRef st) None)
                   (\<lambda>sessionKey. appStateToHashWithoutKey W appState sessionKey) of
              Inl e \<Rightarrow> st\<lparr>consoleErrors := consoleErrors st @ [e]\<rparr>
            | Inr newHash \<Rightarrow> st\<lparr>location_hash := newHash\<rparr>))"

text \<open>
  The effect that runs once, when the page is opened. \<open>newKey\<close> is the session key that
  \<^verbatim>\<open>logInKeyCreate\<close> has just drawn and \<open>loadedAt\<close> the time in \<^verbatim>\<open>initialAppState\<close>.
\<close>

definition initialLoad :: "browser \<Rightarrow> Timestamp \<Rightarrow> string \<Rightarrow> HashAppState \<Rightarrow> HashAppState" where
  "initialLoad W loadedAt newKey st0 =
     (if isLoadedRef st0 then st0
      else
        (let st = st0\<lparr>sessionKeyRef := Some newKey\<rparr> in
         if location_hash st = []
         then st\<lparr>isLoadedRef := True, appStateValue := initialAppState loadedAt\<rparr>
         else if \<not> appStateHashHasKey (location_hash st)
         then st\<lparr>alerts := alerts st @
                     [''Could not load thread. Make sure the link was generated using the share feature and not copy and pasted from the browser address bar.''],
                 appStateValue := initialAppState loadedAt,
                 isLoadedRef := True\<rparr>
         else (case appStateFromHashWithKey W (location_hash st) of
                 Inr appState \<Rightarrow> setAppState W appState (st\<lparr>isLoadedRef := True\<rparr>)
               | Inl e \<Rightarrow>
                   st\<lparr>alerts := alerts st @
                        [''Could not load thread. Something is wrong with the shared link.''],
                      appStateValue := initialAppState loadedAt,
                      isLoadedRef := True\<rparr>)))"

text \<open>The effect that runs when the fragment of the address has changed.\<close>

definition hashChanged :: "browser \<Rightarrow> Timestamp \<Rightarrow> HashAppState \<Rightarrow> HashAppState" where
  "hashChanged W loadedAt st =
     (if \<not> isLoadedRef st then st
      else if location_hash st = []
      then st\<lparr>appStateValue := initialAppState loadedAt\<rparr>
      else (case await (nullthrows (sessionKeyRef st) None)
                   (\<lambda>sessionKey. appStateFromHashWithoutKey W (location_hash st) sessionKey) of
              Inr newAppState \<Rightarrow> st\<lparr>appStateValue := newAppState\<rparr>
            | Inl e \<Rightarrow> st\<lparr>consoleErrors := consoleErrors st @ [e]\<rparr>))"

section \<open>New post ids\<close>

text \<open>
  \<^verbatim>\<open>generatePostId\<close> draws three random bytes, encodes them and tries again while a post has
  that id. The random bytes are an argument: \<open>rnd n\<close> is the \<open>n\<close>-th byte that
  \<^verbatim>\<open>crypto.getRandomValues\<close> delivers, and the \<open>i\<close>-th pass of the loop reads bytes \<open>3 * i\<close> to
  \<open>3 * i + 2\<close>. A loop that never ends has the value \<open>None\<close>.
\<close>

definition drawnId :: "(nat \<Rightarrow> 8 word) \<Rightarrow> nat \<Rightarrow> PostId" where
  "drawnId rnd i = btoa (String_fromCharCode (map rnd [3 * i ..< 3 * i + 3]))"

partial_function (option) generatePostId_from :: "(nat \<Rightarrow> 8 word) \<Rightarrow> AppState \<Rightarrow> nat \<Rightarrow> PostId option" where
  "generatePostId_from rnd appState i =
     (if find (\<lambda>q. postId q = drawnId rnd i) (allPosts appState) \<noteq> None
      then generatePostId_from rnd appState (Suc i)
      else Some (drawnId rnd i))"

definition generatePostId :: "(nat \<Rightarrow> 8 word) \<Rightarrow> AppState \<Rightarrow> PostId option" where
  "generatePostId rnd appState = generatePostId_from rnd appState 0"

text \<open>
  What is assumed of the random bytes: every value of the three bytes is drawn at some pass,
  as it is, with probability one, when the bytes are uniform and independent.
\<close>

definition fair_source :: "(nat \<Rightarrow> 8 word) \<Rightarrow> bool" where
  "fair_source rnd \<longleftrightarrow> (\<forall>a b c. \<exists>n. map rnd [3 * n ..< 3 * n + 3] = [a, b, c])"

section \<open>What is assumed of the browser\<close>

text \<open>
  The guarantees of the browser interfaces that the properties below rest on, each as a
  predicate on the browser. AES-GCM decryption undoes encryption under the same key and
  parameters; the ciphertext is the plaintext's length plus the 16 bytes of the tag;
  decryption under other key material fails to authenticate; an imported \<^verbatim>\<open>A128GCM\<close> key has
  128 bits; decoding undoes encoding of text; decompression undoes compression. A snapshot is
  valid when \<^verbatim>\<open>JSON.parse\<close> gives it back from what \<^verbatim>\<open>JSON.stringify\<close> writes (its numbers
  are finite and nothing in it is \<^verbatim>\<open>undefined\<close>). The strings of the model are well-formed
  text: \<^verbatim>\<open>TextEncoder\<close> replaces a lone surrogate, which no string here contains.
\<close>

definition aes_gcm_inverse :: "browser \<Rightarrow> bool" where
  "aes_gcm_inverse W \<longleftrightarrow>
     (\<forall>params key data encrypted.
        subtle_encrypt W params key data = Inr encrypted \<longrightarrow>
        subtle_decrypt W params key encrypted = Inr data)"

definition aes_gcm_tagged :: "browser \<Rightarrow> bool" where
  "aes_gcm_tagged W \<longleftrightarrow>
     (\<forall>params key data encrypted.
        subtle_encrypt W params key data = Inr encrypted \<longrightarrow>
        length encrypted = length data + 16)"

definition aes_gcm_authentic :: "browser \<Rightarrow> bool" where
  "aes_gcm_authentic W \<longleftrightarrow>
     (\<forall>params key key' data encrypted.
        subtle_encrypt W params key data = Inr encrypted \<longrightarrow>
        key_data key' \<noteq> key_data key \<longrightarrow>
        (\<exists>e. subtle_decrypt W params key' encrypted = Inl e))"

definition importKey_128 :: "browser \<Rightarrow> bool" where
  "importKey_128 W \<longleftrightarrow>
     (\<forall>format jwk alg ext usages key.
        subtle_importKey W format jwk alg ext usages = Inr key \<longrightarrow>
        jwk_alg jwk = ''A128GCM'' \<longrightarrow>
        key_algorithm key = \<lparr>alg_name = alg_name alg, alg_length = 128\<rparr>)"

definition text_inverse :: "browser \<Rightarrow> bool" where
  "text_inverse W \<longleftrightarrow> (\<forall>str. TextDecoder_decode W (TextEncoder_encode W str) = str)"

definition gzip_inverse :: "browser \<Rightarrow> bool" where
  "gzip_inverse W \<longleftrightarrow>
     (\<forall>format data. DecompressionStream W format (CompressionStream W format data) = Inr data)"

definition valid_snapshot :: "browser \<Rightarrow> AppState \<Rightarrow> bool" where
  "valid_snapshot W appState \<longleftrightarrow> JSON_parse W (JSON_stringify W appState) = Inr appState"

text \<open>
  Two browsers that differ at most in what their cipher does away from AES-GCM under the
  nonce of twelve zero bytes with a 128-bit AES-GCM key.
\<close>

definition zero_nonce_params :: AesGcmParams where
  "zero_nonce_params = \<lparr>params_name = ''AES-GCM'', params_iv = [0, 0, 0, 0, 0, 0, 0, 0, 0, 0, 0, 0]\<rparr>"

definition same_at_zero_nonce :: "browser \<Rightarrow> browser \<Rightarrow> bool" where
  "same_at_zero_nonce W W' \<longleftrightarrow>
     subtle_importKey W' = subtle_importKey W \<and>
     TextEncoder_encode W' = TextEncoder_encode W \<and>
     TextDecoder_decode W' = TextDecoder_decode W \<and>
     (\<forall>key data.
        key_algorithm key = \<lparr>alg_name = ''AES-GCM'', alg_length = 128\<rparr> \<longrightarrow>
        subtle_encrypt W' zero_nonce_params key data = subtle_encrypt W zero_nonce_params key data \<and>
        subtle_decrypt W' zero_nonce_params key data = subtle_decrypt W zero_nonce_params key data)"

section \<open>A browser for the examples\<close>

text \<open>
  A small browser on which all of the above holds, for the examples that instantiate the
  theorems. Its cipher is a stand-in with the interface of AES-GCM and none of its secrecy:
  a key is sixteen characters, and the tag appended to the plaintext is the key itself. Its
  compression puts the two magic bytes of gzip in front, and its \<^verbatim>\<open>JSON\<close> knows one snapshot.
\<close>

definition demo_importKey :: "string \<Rightarrow> JsonWebKey \<Rightarrow> KeyAlgorithm \<Rightarrow> bool \<Rightarrow> string list \<Rightarrow> error + CryptoKey" where
  "demo_importKey format jwk alg ext usages =
     (if format = ''jwk'' \<and> jwk_kty jwk = ''oct'' \<and> jwk_alg jwk = ''A128GCM'' \<and> length (jwk_k jwk) = 16
      then Inr \<lparr>key_algorithm = \<lparr>alg_name = alg_name alg, alg_length = 128\<rparr>,
                key_extractable = ext, key_usages = usages, key_data = charCodes (jwk_k jwk)\<rparr>
      else Inl (DOMException ''DataError''))"

definition demo_encrypt :: "AesGcmParams \<Rightarrow> CryptoKey \<Rightarrow> bytes \<Rightarrow> error + bytes" where
  "demo_encrypt params key data =
     (if params_name params = ''AES-GCM'' \<and> length (params_iv params) = 12 \<and> length (key_data key) = 16
      then Inr (data @ key_data key)
      else Inl (DOMException ''OperationError''))"

definition demo_decrypt :: "AesGcmParams \<Rightarrow> CryptoKey \<Rightarrow> bytes \<Rightarrow> error + bytes" where
  "demo_decrypt params key encrypted =
     (if params_name params = ''AES-GCM'' \<and> length (params_iv params) = 12 \<and> length (key_data key) = 16 \<and>
         16 \<le> length encrypted \<and> drop (length encrypted - 16) encrypted = key_data key
      then Inr (take (length encrypted - 16) encrypted)
      else Inl (DOMException ''OperationError''))"

definition demo_decompress :: "string \<Rightarrow> bytes \<Rightarrow> error + bytes" where
  "demo_decompress format data =
     (case data of
        m1 # m2 # rest \<Rightarrow>
          if m1 = 31 \<and> m2 = 139 then Inr rest
          else Inl (TypeError ''The compressed data was not valid.'')
      | _ \<Rightarrow> Inl (TypeError ''The compressed data was not valid.''))"

definition demo_snapshot :: AppState where
  "demo_snapshot =
     \<lparr>users = [\<lparr>username = ''root'', imageIndex = 0, encryptedUsername = ''''\<rparr>],
      rootPostIds = [''p1''],
      allPosts = [\<lparr>postId = ''p1'', post_username = ''root'', createdAt = 0, content = ''hello'',
                   replyPostIds = [], likes = []\<rparr>]\<rparr>"

definition demo_json :: string where
  \<open>demo_json = ''{"users":[{"username":"root","imageIndex":0,"encryptedUsername":""}],"rootPostIds":["p1"],"allPosts":[{"postId":"p1","username":"root","createdAt":0,"content":"hello","replyPostIds":[],"likes":[]}]}''\<close>

definition demo_browser :: browser where
  "demo_browser =
     \<lparr>subtle_importKey = demo_importKey,
      subtle_encrypt = demo_encrypt,
      subtle_decrypt = demo_decrypt,
      TextEncoder_encode = charCodes,
      TextDecoder_decode = String_fromCharCode,
      CompressionStream = (\<lambda>format data. 31 # 139 # data),
      DecompressionStream = demo_decompress,
      JSON_stringify = (\<lambda>appState. if appState = demo_snapshot then demo_json else ''null''),
      JSON_parse = (\<lambda>json. if json = demo_json then Inr demo_snapshot
                            else Inl (SyntaxError ''Unexpected token''))\<rparr>"

definition demo_key :: string where
  "demo_key = ''0123456789abcdef''"

definition demo_key2 :: string where
  "demo_key2 = ''fedcba9876543210''"

text \<open>
  A snapshot with the seeded user and two records of a user \<open>alice\<close> whose stored proof is the
  one that \<open>demo_key\<close> derives in the example browser; a snapshot whose only post has the id
  that three zero bytes encode to; and the example browser with a cipher that answers with
  an empty result whenever it is called with other parameters than AES-GCM under the nonce of
  twelve zero bytes.
\<close>

definition demo_users :: AppState where
  "demo_users =
     \<lparr>users = [\<lparr>username = ''iamyarn'', imageIndex = 0, encryptedUsername = ''''\<rparr>,
               \<lparr>username = ''alice'', imageIndex = 1, encryptedUsername = ''YWxpY2UwMTIzNDU2Nzg5YWJjZGVm''\<rparr>,
               \<lparr>username = ''alice'', imageIndex = 2, encryptedUsername = ''YWxpY2UwMTIzNDU2Nzg5YWJjZGVm''\<rparr>],
      rootPostIds = [], allPosts = []\<rparr>"

definition demo_taken :: AppState where
  "demo_taken =
     \<lparr>users = [], rootPostIds = [''AAAA''],
      allPosts = [\<lparr>postId = ''AAAA'', post_username = ''root'', createdAt = 0, content = ''hello'',
                   replyPostIds = [], likes = []\<rparr>]\<rparr>"

text \<open>
  A source of bytes that draws every value of the three bytes: the \<open>n\<close>-th pass reads the
  three bytes of the number \<open>n\<close>.
\<close>

definition counting_source :: "nat \<Rightarrow> 8 word" where
  "counting_source i = of_nat ((i div 3) div 256 ^ (2 - i mod 3))"

definition demo_browser_zero_only :: browser where
  "demo_browser_zero_only =
     demo_browser
       \<lparr>subtle_encrypt := (\<lambda>params key data.
           if params = zero_nonce_params then demo_encrypt params key data else Inr []),
        subtle_decrypt := (\<lambda>params key data.
           if params = zero_nonce_params then demo_decrypt params key data else Inr [])\<rparr>"

section \<open>Properties of fragment parsing\<close>

lemma js_split_not_Nil: "js_split sep s \<noteq> []"
  by (induction s) (auto split: list.splits)

lemma js_split_unfold:
  "js_split sep s = takeWhile (\<lambda>c. c \<noteq> sep) s #
     (if sep \<in> set s then js_split sep (tl (dropWhile (\<lambda>c. c \<noteq> sep) s)) else [])"
  by (induction s) (auto split: list.splits)

lemma body_is_first_piece:
  "fst (appStateGetHashBodyAndKey f) = takeWhile (\<lambda>c. c \<noteq> CHR '':'') f"
  unfolding appStateGetHashBodyAndKey_def
  by (subst js_split_unfold) (auto split: list.splits)

lemma key_is_second_piece:
  "snd (appStateGetHashBodyAndKey f) =
     (if CHR '':'' \<in> set f
      then Some (takeWhile (\<lambda>c. c \<noteq> CHR '':'') (tl (dropWhile (\<lambda>c. c \<noteq> CHR '':'') f)))
      else None)"
  unfolding appStateGetHashBodyAndKey_def
  apply (subst js_split_unfold)
  apply (cases "CHR '':'' \<in> set f")
   apply simp
   apply (subst js_split_unfold)
   apply (simp split: list.splits)
  apply simp
  done

lemma key_absent_iff: "snd (appStateGetHashBodyAndKey f) = None \<longleftrightarrow> CHR '':'' \<notin> set f"
  by (simp add: key_is_second_piece)

lemma key_present_value:
  "snd (appStateGetHashBodyAndKey f) = Some key \<Longrightarrow>
     key = takeWhile (\<lambda>c. c \<noteq> CHR '':'') (tl (dropWhile (\<lambda>c. c \<noteq> CHR '':'') f))"
  by (simp add: key_is_second_piece split: if_splits)

lemma count_list_one_split:
  "count_list f d = 1 \<Longrightarrow> \<exists>b k. f = b @ d # k \<and> d \<notin> set b \<and> d \<notin> set k"
proof (induction f)
  case Nil
  then show ?case by simp
next
  case (Cons c cs)
  show ?case
  proof (cases "c = d")
    case True
    with Cons.prems have "count_list cs d = 0" by simp
    then have "d \<notin> set cs" by (simp add: count_list_0_iff)
    with True show ?thesis by (intro exI[of _ "[]"] exI[of _ cs]) simp
  next
    case False
    with Cons obtain b k where "cs = b @ d # k" "d \<notin> set b" "d \<notin> set k" by auto
    with False show ?thesis by (intro exI[of _ "c # b"] exI[of _ k]) simp
  qed
qed

lemma parse_of_join:
  assumes "CHR '':'' \<notin> set b"
  shows "appStateGetHashBodyAndKey (b @ '':'' @ k) = (b, Some (takeWhile (\<lambda>c. c \<noteq> CHR '':'') k))"
proof -
  have 1: "takeWhile (\<lambda>c. c \<noteq> CHR '':'') (b @ CHR '':'' # k) = b"
    using assms by (subst takeWhile_append2) auto
  have 2: "dropWhile (\<lambda>c. c \<noteq> CHR '':'') (b @ CHR '':'' # k) = CHR '':'' # k"
    using assms by (subst dropWhile_append2) auto
  show ?thesis
    using 1 2 body_is_first_piece[of "b @ '':'' @ k"] key_is_second_piece[of "b @ '':'' @ k"]
    by (simp add: prod_eq_iff)
qed

lemma join_of_parse:
  assumes "count_list f (CHR '':'') = 1"
  shows "\<exists>key. snd (appStateGetHashBodyAndKey f) = Some key \<and>
           fst (appStateGetHashBodyAndKey f) @ '':'' @ key = f"
proof -
  obtain b k where f: "f = b @ CHR '':'' # k" and b: "CHR '':'' \<notin> set b" and k: "CHR '':'' \<notin> set k"
    using count_list_one_split[OF assms] by blast
  have tk: "takeWhile (\<lambda>c. c \<noteq> CHR '':'') k = k"
    using k by auto
  have "appStateGetHashBodyAndKey f = (b, Some k)"
    using parse_of_join[OF b, of k] unfolding tk f by simp
  then show ?thesis
    unfolding f by simp
qed

text \<open>
  Claim C2, as the code has it. The fragment is cut at every \<open>:\<close> and the first two pieces are
  kept: the body is the text before the FIRST \<open>:\<close>, the key is the text between the first and
  the second \<open>:\<close> (up to the end when there is no second one), and the key is absent exactly
  when the fragment has no \<open>:\<close>. Body, \<open>:\<close> and key give the fragment back when it has
  exactly one \<open>:\<close>.
\<close>

theorem appStateGetHashBodyAndKey_first_colon:
  "(snd (appStateGetHashBodyAndKey f) = None \<longleftrightarrow> CHR '':'' \<notin> set f) \<and>
   fst (appStateGetHashBodyAndKey f) = takeWhile (\<lambda>c. c \<noteq> CHR '':'') f \<and>
   (\<forall>key. snd (appStateGetHashBodyAndKey f) = Some key \<longrightarrow>
      key = takeWhile (\<lambda>c. c \<noteq> CHR '':'') (tl (dropWhile (\<lambda>c. c \<noteq> CHR '':'') f))) \<and>
   (count_list f (CHR '':'') = 1 \<longrightarrow>
      (\<exists>key. snd (appStateGetHashBodyAndKey f) = Some key \<and>
         fst (appStateGetHashBodyAndKey f) @ '':'' @ key = f))"
  using key_absent_iff[of f] body_is_first_piece[of f] key_present_value[of f] join_of_parse[of f]
  by blast

theorem appStateGetHashBodyAndKey_first_colon_witness:
  "count_list ''ab:cd'' (CHR '':'') = 1 \<and> appStateGetHashBodyAndKey ''ab:cd'' = (''ab'', Some ''cd'')"
proof -
  have h: "count_list ''ab:cd'' (CHR '':'') = 1" by simp
  from appStateGetHashBodyAndKey_first_colon[of "''ab:cd''"] h obtain key where
    "snd (appStateGetHashBodyAndKey ''ab:cd'') = Some key"
    "fst (appStateGetHashBodyAndKey ''ab:cd'') @ '':'' @ key = ''ab:cd''"
    "fst (appStateGetHashBodyAndKey ''ab:cd'') = takeWhile (\<lambda>c. c \<noteq> CHR '':'') ''ab:cd''"
    by blast
  then show ?thesis using h by (simp add: prod_eq_iff)
qed

text \<open>
  The claim as it is written (a cut at the LAST \<open>:\<close>, body and key joining back to the
  fragment also when the body contains \<open>:\<close>) fails on a fragment with two delimiters: the code
  returns the first two pieces and drops the third.
\<close>

theorem appStateGetHashBodyAndKey_two_colons:
  "appStateGetHashBodyAndKey ''a:b:c'' = (''a'', Some ''b'') \<and> ''a'' @ '':'' @ ''b'' \<noteq> ''a:b:c''"
  by (simp add: appStateGetHashBodyAndKey_def)

section \<open>Properties of base64\<close>

lemma sextet_all:
  "list_all (\<lambda>n. char_sextet (sextet_char n) = Some n \<and> sextet_char n \<noteq> CHR ''='') [0..<64]"
  by code_simp

lemma char_sextet_sextet_char: "n < 64 \<Longrightarrow> char_sextet (sextet_char n) = Some n"
  using sextet_all by (simp add: list_all_iff)

lemma sextet_char_not_pad: "n < 64 \<Longrightarrow> sextet_char n \<noteq> CHR ''=''"
  using sextet_all by (simp add: list_all_iff)

lemma sextet_bounds:
  fixes x y z :: nat
  assumes "x < 256" "y < 256" "z < 256"
  shows "x div 4 < 64" "(x mod 4) * 16 + y div 16 < 64" "(y mod 16) * 4 + z div 64 < 64"
    "z mod 64 < 64" "(x mod 4) * 16 < 64" "(y mod 16) * 4 < 64"
proof -
  have a: "x mod 4 < 4" "y mod 16 < 16" by simp_all
  have b: "y div 16 < 16" "z div 64 < 4" using assms by simp_all
  show "x div 4 < 64" using assms by simp
  show "(x mod 4) * 16 + y div 16 < 64" using a b by linarith
  show "(y mod 16) * 4 + z div 64 < 64" using a b by linarith
  show "z mod 64 < 64" by simp
  show "(x mod 4) * 16 < 64" using a by linarith
  show "(y mod 16) * 4 < 64" using a by linarith
qed

lemma first_byte:
  fixes x y :: nat
  assumes "y < 256"
  shows "x div 4 * 4 + ((x mod 4) * 16 + y div 16) div 16 = x"
proof -
  have "y div 16 < 16" using assms by simp
  then have "((x mod 4) * 16 + y div 16) div 16 = x mod 4" by simp
  then show ?thesis by simp
qed

lemma second_byte:
  fixes x y z :: nat
  assumes "y < 256" "z < 256"
  shows "(((x mod 4) * 16 + y div 16) mod 16) * 16 + ((y mod 16) * 4 + z div 64) div 4 = y"
proof -
  have "y div 16 < 16" using assms by simp
  then have 1: "((x mod 4) * 16 + y div 16) mod 16 = y div 16" by simp
  have "z div 64 < 4" using assms by simp
  then have 2: "((y mod 16) * 4 + z div 64) div 4 = y mod 16" by simp
  show ?thesis unfolding 1 2 by simp
qed

lemma third_byte:
  fixes y z :: nat
  assumes "z < 256"
  shows "(((y mod 16) * 4 + z div 64) mod 4) * 64 + z mod 64 = z"
proof -
  have "z div 64 < 4" using assms by simp
  then have 1: "((y mod 16) * 4 + z div 64) mod 4 = z div 64" by simp
  show ?thesis unfolding 1 by simp
qed

lemma first_byte_padded:
  fixes x :: nat
  shows "x div 4 * 4 + ((x mod 4) * 16) div 16 = x"
  by simp

lemma second_byte_padded:
  fixes x y :: nat
  assumes "y < 256"
  shows "(((x mod 4) * 16 + y div 16) mod 16) * 16 + ((y mod 16) * 4) div 4 = y"
proof -
  have "y div 16 < 16" using assms by simp
  then have 1: "((x mod 4) * 16 + y div 16) mod 16 = y div 16" by simp
  show ?thesis unfolding 1 by simp
qed

lemma atob_one:
  assumes "s1 < 64" "s2 < 64"
  shows "atob [sextet_char s1, sextet_char s2, CHR ''='', CHR ''=''] = Some [char_of (s1 * 4 + s2 div 16)]"
  using assms by (simp add: char_sextet_sextet_char)

lemma atob_two:
  assumes "s1 < 64" "s2 < 64" "s3 < 64"
  shows "atob [sextet_char s1, sextet_char s2, sextet_char s3, CHR ''=''] =
     Some [char_of (s1 * 4 + s2 div 16), char_of ((s2 mod 16) * 16 + s3 div 4)]"
  using assms by (simp add: char_sextet_sextet_char sextet_char_not_pad)

lemma atob_three:
  assumes "s1 < 64" "s2 < 64" "s3 < 64" "s4 < 64"
  shows "atob (sextet_char s1 # sextet_char s2 # sextet_char s3 # sextet_char s4 # rest) =
     map_option (\<lambda>tail. char_of (s1 * 4 + s2 div 16) # char_of ((s2 mod 16) * 16 + s3 div 4) #
                           char_of ((s3 mod 4) * 64 + s4) # tail) (atob rest)"
  using assms by (simp add: char_sextet_sextet_char sextet_char_not_pad)

lemma atob_btoa: "atob (btoa s) = Some s"
proof (induction s rule: btoa.induct)
  case 1
  show ?case by simp
next
  case (2 a)
  have x: "(of_char a :: nat) < 256" by simp
  have "atob (btoa [a]) = Some [char_of (of_char a div 4 * 4 + ((of_char a mod 4) * 16) div 16 :: nat)]"
    unfolding btoa.simps Let_def
    by (rule atob_one[OF sextet_bounds(1)[OF x x x] sextet_bounds(5)[OF x x x]])
  then show ?case unfolding first_byte_padded by simp
next
  case (3 a b)
  have x: "(of_char a :: nat) < 256" and y: "(of_char b :: nat) < 256" by simp_all
  note bs = sextet_bounds[OF x y y]
  have "atob (btoa [a, b]) =
      Some [char_of (of_char a div 4 * 4 + ((of_char a mod 4) * 16 + of_char b div 16) div 16 :: nat),
            char_of ((((of_char a mod 4) * 16 + of_char b div 16) mod 16) * 16 + ((of_char b mod 16) * 4) div 4 :: nat)]"
    unfolding btoa.simps Let_def
    by (rule atob_two[OF bs(1) bs(2) bs(6)])
  then show ?case unfolding first_byte[OF y] second_byte_padded[OF y] by simp
next
  case (4 a b c rest)
  have x: "(of_char a :: nat) < 256" and y: "(of_char b :: nat) < 256" and z: "(of_char c :: nat) < 256"
    by simp_all
  note bs = sextet_bounds[OF x y z]
  have "atob (btoa (a # b # c # rest)) =
        map_option (\<lambda>tail.
          char_of (of_char a div 4 * 4 + ((of_char a mod 4) * 16 + of_char b div 16) div 16 :: nat) #
          char_of ((((of_char a mod 4) * 16 + of_char b div 16) mod 16) * 16 + ((of_char b mod 16) * 4 + of_char c div 64) div 4 :: nat) #
          char_of ((((of_char b mod 16) * 4 + of_char c div 64) mod 4) * 64 + of_char c mod 64 :: nat) # tail)
          (atob (btoa rest))"
    unfolding btoa.simps Let_def append_Cons append_Nil
    by (rule atob_three[OF bs(1) bs(2) bs(3) bs(4)])
  moreover have "atob (btoa rest) = Some rest"
    using 4 by simp
  ultimately show ?case
    unfolding first_byte[OF y] second_byte[OF y z] third_byte[OF z] by simp
qed

lemma byte_of_char_of: "(of_char (char_of (unat b)) :: 8 word) = b"
proof -
  have lt: "unat b < 256" using unsigned_less[of b] by simp
  have "(of_char (char_of (unat b)) :: 8 word) = of_nat (of_char (char_of (unat b)))"
    by (simp only: of_nat_of_char)
  also have "(of_char (char_of (unat b)) :: nat) = unat b"
    using lt by simp
  also have "of_nat (unat b) = b" by simp
  finally show ?thesis .
qed

lemma charCodes_fromCharCode: "charCodes (String_fromCharCode buffer) = buffer"
  by (induction buffer) (simp_all add: charCodes_def String_fromCharCode_def byte_of_char_of)

lemma fromCharCode_charCodes: "String_fromCharCode (charCodes str) = str"
proof (induction str)
  case Nil
  show ?case by (simp add: charCodes_def String_fromCharCode_def)
next
  case (Cons c cs)
  have "unat (of_char c :: 8 word) = unat (of_nat (of_char c :: nat) :: 8 word)"
    by (simp only: of_nat_of_char)
  also have "\<dots> = of_char c"
    by (simp add: unat_of_nat)
  finally have "unat (of_char c :: 8 word) = of_char c" .
  with Cons show ?case by (simp add: charCodes_def String_fromCharCode_def)
qed

lemma base64_roundtrip: "base64ToArrayBuffer (arrayBufferToBase64 buffer) = Inr buffer"
  by (simp add: base64ToArrayBuffer_def arrayBufferToBase64_def atob_btoa charCodes_fromCharCode)

lemma arrayBufferToBase64_inj: "arrayBufferToBase64 a = arrayBufferToBase64 b \<Longrightarrow> a = b"
  by (metis base64_roundtrip sum.inject(2))

lemma btoa_Nil_iff: "btoa s = [] \<longleftrightarrow> s = []"
  by (induction s rule: btoa.induct) (simp_all add: Let_def)

lemma arrayBufferToBase64_Nil_iff: "arrayBufferToBase64 buffer = [] \<longleftrightarrow> buffer = []"
  by (simp add: arrayBufferToBase64_def btoa_Nil_iff String_fromCharCode_def)

lemma btoa_000: "btoa (String_fromCharCode [0, 0, 0]) = ''AAAA''"
  by code_simp

lemma btoa_001: "btoa (String_fromCharCode [0, 0, 1]) = ''AAAB''"
  by code_simp

section \<open>The example browser meets the assumptions\<close>

lemma demo_aes_gcm_inverse: "aes_gcm_inverse demo_browser"
  by (auto simp: aes_gcm_inverse_def demo_browser_def demo_encrypt_def demo_decrypt_def split: if_splits)

lemma demo_aes_gcm_tagged: "aes_gcm_tagged demo_browser"
  by (auto simp: aes_gcm_tagged_def demo_browser_def demo_encrypt_def split: if_splits)

lemma demo_aes_gcm_authentic: "aes_gcm_authentic demo_browser"
  by (auto simp: aes_gcm_authentic_def demo_browser_def demo_encrypt_def demo_decrypt_def split: if_splits)

lemma demo_importKey_128: "importKey_128 demo_browser"
  by (auto simp: importKey_128_def demo_browser_def demo_importKey_def split: if_splits)

lemma demo_text_inverse: "text_inverse demo_browser"
  by (simp add: text_inverse_def demo_browser_def fromCharCode_charCodes)

lemma demo_gzip_inverse: "gzip_inverse demo_browser"
  by (simp add: gzip_inverse_def demo_browser_def demo_decompress_def)

lemma demo_valid_snapshot: "valid_snapshot demo_browser demo_snapshot"
  by (simp add: valid_snapshot_def demo_browser_def)

lemma demo_same_at_zero_nonce: "same_at_zero_nonce demo_browser demo_browser_zero_only"
  by (simp add: same_at_zero_nonce_def demo_browser_zero_only_def demo_browser_def)

lemma demo_logInKeyToCryptoKey:
  "logInKeyToCryptoKey demo_browser demo_key =
     Inr \<lparr>key_algorithm = \<lparr>alg_name = ''AES-GCM'', alg_length = 128\<rparr>, key_extractable = True,
          key_usages = [''encrypt'', ''decrypt''], key_data = charCodes demo_key\<rparr>"
  by (simp add: logInKeyToCryptoKey_def demo_browser_def demo_importKey_def LOG_IN_KEY_CONFIG_def demo_key_def)

lemma demo_logInKeyToCryptoKey2:
  "logInKeyToCryptoKey demo_browser demo_key2 =
     Inr \<lparr>key_algorithm = \<lparr>alg_name = ''AES-GCM'', alg_length = 128\<rparr>, key_extractable = True,
          key_usages = [''encrypt'', ''decrypt''], key_data = charCodes demo_key2\<rparr>"
  by (simp add: logInKeyToCryptoKey_def demo_browser_def demo_importKey_def LOG_IN_KEY_CONFIG_def demo_key2_def)

lemma demo_keys_differ: "charCodes demo_key \<noteq> charCodes demo_key2"
  by (simp add: charCodes_def demo_key_def demo_key2_def)

lemma demo_encrypt_total:
  "\<forall>data. \<exists>c. subtle_encrypt demo_browser zero_nonce_params
      \<lparr>key_algorithm = \<lparr>alg_name = ''AES-GCM'', alg_length = 128\<rparr>, key_extractable = True,
       key_usages = [''encrypt'', ''decrypt''], key_data = charCodes demo_key\<rparr> data = Inr c"
  by (simp add: demo_browser_def demo_encrypt_def zero_nonce_params_def charCodes_def demo_key_def)

lemma demo_logInKeyEncrypt:
  "logInKeyEncrypt demo_browser demo_key v = Inr (arrayBufferToBase64 (charCodes v @ charCodes demo_key))"
  unfolding logInKeyEncrypt_def demo_logInKeyToCryptoKey
  by (simp add: await_def demo_browser_def demo_encrypt_def Uint8Array_def charCodes_def demo_key_def)

lemma demo_logInKeyEncrypt2:
  "logInKeyEncrypt demo_browser demo_key2 v = Inr (arrayBufferToBase64 (charCodes v @ charCodes demo_key2))"
  unfolding logInKeyEncrypt_def demo_logInKeyToCryptoKey2
  by (simp add: await_def demo_browser_def demo_encrypt_def Uint8Array_def charCodes_def demo_key2_def)

lemma demo_proof_iamyarn:
  "logInKeyEncrypt demo_browser demo_key ''iamyarn'' = Inr ''aWFteWFybjAxMjM0NTY3ODlhYmNkZWY=''"
  unfolding demo_logInKeyEncrypt
  by (simp add: arrayBufferToBase64_def charCodes_def String_fromCharCode_def demo_key_def Let_def
      sextet_char_def base64_alphabet_def)

lemma demo_proof_alice:
  "logInKeyEncrypt demo_browser demo_key ''alice'' = Inr ''YWxpY2UwMTIzNDU2Nzg5YWJjZGVm''"
  unfolding demo_logInKeyEncrypt
  by (simp add: arrayBufferToBase64_def charCodes_def String_fromCharCode_def demo_key_def Let_def
      sextet_char_def base64_alphabet_def)

section \<open>Properties of the cipher layer and of the fragment codec\<close>

lemma await_Inr [simp]: "await (Inr v) f = f v"
  by (simp add: await_def)

lemma await_Inl [simp]: "await (Inl e) f = Inl e"
  by (simp add: await_def)

lemma await_eq_Inr: "await p f = Inr r \<longleftrightarrow> (\<exists>v. p = Inr v \<and> f v = Inr r)"
  by (cases p) simp_all

lemma Uint8Array_12: "\<lparr>params_name = ''AES-GCM'', params_iv = Uint8Array 12\<rparr> = zero_nonce_params"
  by (simp add: Uint8Array_def zero_nonce_params_def eval_nat_numeral)

lemma logInKeyEncrypt_Inr:
  "logInKeyEncrypt W k v = Inr c \<longleftrightarrow>
     (\<exists>key encrypted. logInKeyToCryptoKey W k = Inr key \<and>
        subtle_encrypt W zero_nonce_params key (TextEncoder_encode W v) = Inr encrypted \<and>
        c = arrayBufferToBase64 encrypted)"
  unfolding logInKeyEncrypt_def Uint8Array_12 by (auto simp: await_eq_Inr)

lemma logInKeyDecrypt_Inr:
  "logInKeyDecrypt W k c = Inr r \<longleftrightarrow>
     (\<exists>key encrypted decrypted. logInKeyToCryptoKey W k = Inr key \<and>
        base64ToArrayBuffer c = Inr encrypted \<and>
        subtle_decrypt W zero_nonce_params key encrypted = Inr decrypted \<and>
        r = TextDecoder_decode W decrypted)"
  unfolding logInKeyDecrypt_def Uint8Array_12 by (auto simp: await_eq_Inr)

lemma imported_key_algorithm:
  assumes "importKey_128 W" "logInKeyToCryptoKey W k = Inr key"
  shows "key_algorithm key = \<lparr>alg_name = ''AES-GCM'', alg_length = 128\<rparr>"
  using assms unfolding importKey_128_def logInKeyToCryptoKey_def LOG_IN_KEY_CONFIG_def
  by fastforce

lemma decrypt_encrypt:
  assumes "aes_gcm_inverse W" "text_inverse W" "logInKeyEncrypt W k v = Inr c"
  shows "logInKeyDecrypt W k c = Inr v"
proof -
  from assms(3) obtain key encrypted where
    k: "logInKeyToCryptoKey W k = Inr key" and
    e: "subtle_encrypt W zero_nonce_params key (TextEncoder_encode W v) = Inr encrypted" and
    c: "c = arrayBufferToBase64 encrypted"
    unfolding logInKeyEncrypt_Inr by blast
  have d: "subtle_decrypt W zero_nonce_params key encrypted = Inr (TextEncoder_encode W v)"
    using assms(1) e unfolding aes_gcm_inverse_def by blast
  have t: "TextDecoder_decode W (TextEncoder_encode W v) = v"
    using assms(2) unfolding text_inverse_def by blast
  show ?thesis
    unfolding logInKeyDecrypt_def Uint8Array_12 c by (simp add: k base64_roundtrip d t)
qed

lemma decompress_compress:
  assumes "gzip_inverse W" "text_inverse W"
  shows "decompressBase64 W (compressToBase64 W str) = Inr str"
proof -
  have g: "DecompressionStream W ''gzip'' (CompressionStream W ''gzip'' (TextEncoder_encode W str)) =
           Inr (TextEncoder_encode W str)"
    using assms(1) unfolding gzip_inverse_def by blast
  have t: "TextDecoder_decode W (TextEncoder_encode W str) = str"
    using assms(2) unfolding text_inverse_def by blast
  show ?thesis
    by (simp add: decompressBase64_def compressToBase64_def compress_def decompress_def
        base64_roundtrip g t)
qed

text \<open>The keyless encoding succeeds under every key that the browser imports and encrypts with.\<close>

lemma appStateToHashWithoutKey_succeeds:
  assumes "logInKeyToCryptoKey W k = Inr key"
    and "\<forall>data. \<exists>c. subtle_encrypt W zero_nonce_params key data = Inr c"
  shows "\<exists>h. appStateToHashWithoutKey W s k = Inr h"
proof -
  from assms(2) obtain c where
    "subtle_encrypt W zero_nonce_params key
       (TextEncoder_encode W (compressToBase64 W (JSON_stringify W s))) = Inr c"
    by blast
  then show ?thesis
    unfolding appStateToHashWithoutKey_def Let_def logInKeyEncrypt_def Uint8Array_12
    by (simp add: assms(1))
qed

text \<open>
  Claim C1. On a browser whose cipher, text coding and compression are inverse pairs, for a
  valid snapshot \<open>s\<close> and a key \<open>k\<close> under which the keyless encoding succeeds with the
  fragment \<open>h\<close>, decoding \<open>h\<close> under \<open>k\<close> gives \<open>s\<close> back, equal as a value (empty lists and
  the order of every list included). The encoding is: JSON text, compression to the base64
  text of the gzip bytes, AES-GCM encryption of that text under the zero nonce, base64.
\<close>

theorem appStateFromHashWithoutKey_inverts_encoding:
  assumes "aes_gcm_inverse W" and "text_inverse W" and "gzip_inverse W"
    and "valid_snapshot W s"
    and "appStateToHashWithoutKey W s k = Inr h"
  shows "appStateFromHashWithoutKey W h k = Inr s \<and>
         (\<exists>key encrypted.
            logInKeyToCryptoKey W k = Inr key \<and>
            subtle_encrypt W zero_nonce_params key
              (TextEncoder_encode W
                 (arrayBufferToBase64
                    (CompressionStream W ''gzip'' (TextEncoder_encode W (JSON_stringify W s))))) =
              Inr encrypted \<and>
            h = arrayBufferToBase64 encrypted)"
proof
  have e: "logInKeyEncrypt W k (compressToBase64 W (JSON_stringify W s)) = Inr h"
    using assms(5) by (simp add: appStateToHashWithoutKey_def Let_def await_eq_Inr)
  have d: "logInKeyDecrypt W k h = Inr (compressToBase64 W (JSON_stringify W s))"
    by (rule decrypt_encrypt[OF assms(1,2) e])
  show "appStateFromHashWithoutKey W h k = Inr s"
    unfolding appStateFromHashWithoutKey_def
    using assms(4) by (simp add: d decompress_compress[OF assms(3,2)] valid_snapshot_def)
  show "\<exists>key encrypted.
            logInKeyToCryptoKey W k = Inr key \<and>
            subtle_encrypt W zero_nonce_params key
              (TextEncoder_encode W
                 (arrayBufferToBase64
                    (CompressionStream W ''gzip'' (TextEncoder_encode W (JSON_stringify W s))))) =
              Inr encrypted \<and>
            h = arrayBufferToBase64 encrypted"
    using e unfolding logInKeyEncrypt_Inr compressToBase64_def compress_def .
qed

theorem appStateFromHashWithoutKey_inverts_encoding_witness:
  "aes_gcm_inverse demo_browser \<and> text_inverse demo_browser \<and> gzip_inverse demo_browser \<and>
   valid_snapshot demo_browser demo_snapshot \<and>
   (\<exists>h. appStateToHashWithoutKey demo_browser demo_snapshot demo_key = Inr h \<and>
        appStateFromHashWithoutKey demo_browser h demo_key = Inr demo_snapshot)"
proof -
  obtain h where h: "appStateToHashWithoutKey demo_browser demo_snapshot demo_key = Inr h"
    by (simp add: appStateToHashWithoutKey_def Let_def demo_logInKeyEncrypt)
  from appStateFromHashWithoutKey_inverts_encoding
         [OF demo_aes_gcm_inverse demo_text_inverse demo_gzip_inverse demo_valid_snapshot h]
  show ?thesis
    using h demo_aes_gcm_inverse demo_text_inverse demo_gzip_inverse demo_valid_snapshot by blast
qed

text \<open>
  Claim C7. The keyed encoding is the keyless encoding followed by \<open>:\<close> and the key; when the
  keyless encoding throws, so does the keyed one.
\<close>

theorem appStateToHashWithKey_appends_key:
  "appStateToHashWithKey W s k =
     (case appStateToHashWithoutKey W s k of
        Inl e \<Rightarrow> Inl e
      | Inr hashBody \<Rightarrow> Inr (hashBody @ '':'' @ k))"
  by (simp add: appStateToHashWithKey_def await_def split: sum.splits)

text \<open>
  Claim C3. The cipher layer calls the browser's cipher with AES-GCM, the nonce of twelve zero
  bytes and the imported 128-bit key, and with nothing else: a browser whose cipher differs
  from another's only at other parameters or other kinds of key gives the same result for
  every encryption and decryption of the layer. The 128 bits are the browser's guarantee for
  an imported \<^verbatim>\<open>A128GCM\<close> key.
\<close>

theorem cipher_layer_zero_nonce_only:
  assumes "importKey_128 W" and "same_at_zero_nonce W W'"
  shows "logInKeyEncrypt W' k v = logInKeyEncrypt W k v \<and>
         logInKeyDecrypt W' k c = logInKeyDecrypt W k c \<and>
         (\<forall>r. logInKeyEncrypt W k v = Inr r \<longrightarrow>
            (\<exists>key encrypted. logInKeyToCryptoKey W k = Inr key \<and>
               key_algorithm key = \<lparr>alg_name = ''AES-GCM'', alg_length = 128\<rparr> \<and>
               subtle_encrypt W zero_nonce_params key (TextEncoder_encode W v) = Inr encrypted \<and>
               r = arrayBufferToBase64 encrypted)) \<and>
         (\<forall>r. logInKeyDecrypt W k c = Inr r \<longrightarrow>
            (\<exists>key encrypted decrypted. logInKeyToCryptoKey W k = Inr key \<and>
               key_algorithm key = \<lparr>alg_name = ''AES-GCM'', alg_length = 128\<rparr> \<and>
               base64ToArrayBuffer c = Inr encrypted \<and>
               subtle_decrypt W zero_nonce_params key encrypted = Inr decrypted \<and>
               r = TextDecoder_decode W decrypted))"
proof -
  have imp: "logInKeyToCryptoKey W' k = logInKeyToCryptoKey W k"
    using assms(2) by (simp add: same_at_zero_nonce_def logInKeyToCryptoKey_def)
  have enc: "TextEncoder_encode W' = TextEncoder_encode W"
    and dec: "TextDecoder_decode W' = TextDecoder_decode W"
    using assms(2) by (simp_all add: same_at_zero_nonce_def)
  have agree: "\<And>key data. logInKeyToCryptoKey W k = Inr key \<Longrightarrow>
      subtle_encrypt W' zero_nonce_params key data = subtle_encrypt W zero_nonce_params key data \<and>
      subtle_decrypt W' zero_nonce_params key data = subtle_decrypt W zero_nonce_params key data"
    using assms(2) imported_key_algorithm[OF assms(1)] unfolding same_at_zero_nonce_def by blast
  have 1: "logInKeyEncrypt W' k v = logInKeyEncrypt W k v"
    unfolding logInKeyEncrypt_def Uint8Array_12 imp enc
    by (cases "logInKeyToCryptoKey W k") (simp_all add: agree)
  have 2: "logInKeyDecrypt W' k c = logInKeyDecrypt W k c"
    unfolding logInKeyDecrypt_def Uint8Array_12 imp dec
    by (cases "logInKeyToCryptoKey W k"; cases "base64ToArrayBuffer c") (simp_all add: agree)
  have 3: "\<forall>r. logInKeyEncrypt W k v = Inr r \<longrightarrow>
            (\<exists>key encrypted. logInKeyToCryptoKey W k = Inr key \<and>
               key_algorithm key = \<lparr>alg_name = ''AES-GCM'', alg_length = 128\<rparr> \<and>
               subtle_encrypt W zero_nonce_params key (TextEncoder_encode W v) = Inr encrypted \<and>
               r = arrayBufferToBase64 encrypted)"
    unfolding logInKeyEncrypt_Inr using imported_key_algorithm[OF assms(1)] by blast
  have 4: "\<forall>r. logInKeyDecrypt W k c = Inr r \<longrightarrow>
            (\<exists>key encrypted decrypted. logInKeyToCryptoKey W k = Inr key \<and>
               key_algorithm key = \<lparr>alg_name = ''AES-GCM'', alg_length = 128\<rparr> \<and>
               base64ToArrayBuffer c = Inr encrypted \<and>
               subtle_decrypt W zero_nonce_params key encrypted = Inr decrypted \<and>
               r = TextDecoder_decode W decrypted)"
    unfolding logInKeyDecrypt_Inr using imported_key_algorithm[OF assms(1)] by blast
  from 1 2 3 4 show ?thesis by blast
qed

theorem cipher_layer_zero_nonce_only_witness:
  "importKey_128 demo_browser \<and> same_at_zero_nonce demo_browser demo_browser_zero_only \<and>
   subtle_encrypt demo_browser_zero_only \<noteq> subtle_encrypt demo_browser \<and>
   logInKeyEncrypt demo_browser_zero_only demo_key ''alice'' = Inr ''YWxpY2UwMTIzNDU2Nzg5YWJjZGVm'' \<and>
   logInKeyDecrypt demo_browser_zero_only demo_key ''YWxpY2UwMTIzNDU2Nzg5YWJjZGVm'' =
     logInKeyDecrypt demo_browser demo_key ''YWxpY2UwMTIzNDU2Nzg5YWJjZGVm''"
proof -
  have d: "subtle_encrypt demo_browser_zero_only \<noteq> subtle_encrypt demo_browser"
  proof
    assume "subtle_encrypt demo_browser_zero_only = subtle_encrypt demo_browser"
    then have "subtle_encrypt demo_browser_zero_only \<lparr>params_name = '''', params_iv = []\<rparr> undefined [] =
               subtle_encrypt demo_browser \<lparr>params_name = '''', params_iv = []\<rparr> undefined []"
      by simp
    then show False
      by (simp add: demo_browser_zero_only_def demo_browser_def demo_encrypt_def zero_nonce_params_def)
  qed
  from cipher_layer_zero_nonce_only[OF demo_importKey_128 demo_same_at_zero_nonce,
         of demo_key "''alice''" "''YWxpY2UwMTIzNDU2Nzg5YWJjZGVm''"]
  show ?thesis
    using d demo_importKey_128 demo_same_at_zero_nonce by (simp add: demo_proof_alice)
qed

section \<open>Properties of logging in\<close>

lemma logInKeyEncrypt_total:
  assumes "logInKeyToCryptoKey W k = Inr key"
    and "\<forall>data. \<exists>c. subtle_encrypt W zero_nonce_params key data = Inr c"
  shows "\<exists>c. logInKeyEncrypt W k v = Inr c"
proof -
  from assms(2) obtain c where
    "subtle_encrypt W zero_nonce_params key (TextEncoder_encode W v) = Inr c"
    by blast
  then show ?thesis
    unfolding logInKeyEncrypt_def Uint8Array_12 by (simp add: assms(1))
qed

lemma onLogIn_loop_find:
  assumes "\<forall>u\<in>set us. \<exists>c. logInKeyEncrypt W k (username u) = Inr c"
  shows "onLogIn_loop W us k =
     (case find (\<lambda>u. logInKeyEncrypt W k (username u) = Inr (encryptedUsername u)) us of
        Some u \<Rightarrow> LoggedIn u
      | None \<Rightarrow> Alert ''Log in key is not valid.'')"
  using assms by (induction us) auto

lemma onLogIn_loop_LoggedIn:
  "onLogIn_loop W us k = LoggedIn u \<Longrightarrow>
     u \<in> set us \<and> logInKeyEncrypt W k (username u) = Inr (encryptedUsername u)"
  by (induction us) (auto split: sum.splits if_splits)

text \<open>
  A key text that the browser does not import makes the first derivation throw: with at
  least one user record the handler ends in the console, without the alert.
\<close>

lemma onLogIn_malformed_key:
  assumes "logInKeyToCryptoKey W k = Inl e" and "users s \<noteq> []"
  shows "onLogIn W s k = Rejected e"
  using assms by (cases "users s") (simp_all add: onLogIn_def logInKeyEncrypt_def)

text \<open>
  For a key text that the browser imports and encrypts with, the handler goes through the
  user records in their order and logs in the first one whose stored proof is the proof
  derived from the key and the record's username; when no record is such, it shows the
  alert that the key is not valid and logs nobody in.
\<close>

lemma onLogIn_first_matching_user:
  assumes "logInKeyToCryptoKey W k = Inr key"
    and "\<forall>data. \<exists>c. subtle_encrypt W zero_nonce_params key data = Inr c"
  shows "onLogIn W s k =
     (case find (\<lambda>u. logInKeyEncrypt W k (username u) = Inr (encryptedUsername u)) (users s) of
        Some u \<Rightarrow> LoggedIn u
      | None \<Rightarrow> Alert ''Log in key is not valid.'')"
  unfolding onLogIn_def
  using logInKeyEncrypt_total[OF assms] by (intro onLogIn_loop_find) blast

lemma onLogIn_first_matching_user_example:
  "logInKeyToCryptoKey demo_browser demo_key =
     Inr \<lparr>key_algorithm = \<lparr>alg_name = ''AES-GCM'', alg_length = 128\<rparr>, key_extractable = True,
          key_usages = [''encrypt'', ''decrypt''], key_data = charCodes demo_key\<rparr> \<and>
   (\<forall>data. \<exists>c. subtle_encrypt demo_browser zero_nonce_params
      \<lparr>key_algorithm = \<lparr>alg_name = ''AES-GCM'', alg_length = 128\<rparr>, key_extractable = True,
       key_usages = [''encrypt'', ''decrypt''], key_data = charCodes demo_key\<rparr> data = Inr c) \<and>
   onLogIn demo_browser demo_users demo_key =
     LoggedIn \<lparr>username = ''alice'', imageIndex = 1, encryptedUsername = ''YWxpY2UwMTIzNDU2Nzg5YWJjZGVm''\<rparr>"
  using onLogIn_first_matching_user[OF demo_logInKeyToCryptoKey demo_encrypt_total, of demo_users]
    demo_logInKeyToCryptoKey demo_encrypt_total
  by (simp add: demo_users_def demo_proof_iamyarn demo_proof_alice)

text \<open>
  Claim C4 says that the handler logs in the first user whose stored proof is the derived
  one and that, when no record matches, the log in fails with the reported error that the
  key does not match. The code at a key text that the browser does not import, which the
  key box passes on as it is typed: no record matches, the first derivation throws, the
  promise is rejected and the error goes to the console; the alert is not shown.
\<close>

theorem onLogIn_rejected_key_shows_no_alert:
  "find (\<lambda>u. logInKeyEncrypt demo_browser ''short'' (username u) = Inr (encryptedUsername u))
        (users demo_users) = None \<and>
   onLogIn demo_browser demo_users ''short'' = Rejected (DOMException ''DataError'')"
proof
  have k: "logInKeyToCryptoKey demo_browser ''short'' = Inl (DOMException ''DataError'')"
    by (simp add: logInKeyToCryptoKey_def demo_browser_def demo_importKey_def)
  then have e: "\<And>v. logInKeyEncrypt demo_browser ''short'' v = Inl (DOMException ''DataError'')"
    by (simp add: logInKeyEncrypt_def)
  show "find (\<lambda>u. logInKeyEncrypt demo_browser ''short'' (username u) = Inr (encryptedUsername u))
        (users demo_users) = None"
    by (simp add: e demo_users_def)
  show "onLogIn demo_browser demo_users ''short'' = Rejected (DOMException ''DataError'')"
    by (rule onLogIn_malformed_key[OF k]) (simp add: demo_users_def)
qed

lemma TextEncoder_inj:
  assumes "text_inverse W" "TextEncoder_encode W a = TextEncoder_encode W b"
  shows "a = b"
  using assms unfolding text_inverse_def by metis

lemma encrypt_inj:
  assumes "aes_gcm_inverse W"
    and "subtle_encrypt W params key a = Inr c" and "subtle_encrypt W params key b = Inr c"
  shows "a = b"
proof -
  have "subtle_decrypt W params key c = Inr a" "subtle_decrypt W params key c = Inr b"
    using assms unfolding aes_gcm_inverse_def by blast+
  then show ?thesis by simp
qed

lemma proof_same_key:
  assumes "aes_gcm_inverse W" "text_inverse W"
    and "logInKeyEncrypt W k u = Inr p" "logInKeyEncrypt W k u' = Inr p'"
  shows "p = p' \<longleftrightarrow> u = u'"
proof
  assume "u = u'"
  with assms(3,4) show "p = p'" by simp
next
  assume eq: "p = p'"
  from assms(3) obtain key c where
    k: "logInKeyToCryptoKey W k = Inr key" and
    e: "subtle_encrypt W zero_nonce_params key (TextEncoder_encode W u) = Inr c" and
    p: "p = arrayBufferToBase64 c"
    unfolding logInKeyEncrypt_Inr by blast
  from assms(4) k obtain c' where
    e': "subtle_encrypt W zero_nonce_params key (TextEncoder_encode W u') = Inr c'" and
    p': "p' = arrayBufferToBase64 c'"
    unfolding logInKeyEncrypt_Inr by auto
  have "c = c'" using eq p p' by (simp add: arrayBufferToBase64_inj)
  with e e' have "TextEncoder_encode W u = TextEncoder_encode W u'"
    using encrypt_inj[OF assms(1)] by blast
  then show "u = u'" by (rule TextEncoder_inj[OF assms(2)])
qed

lemma proof_other_key:
  assumes "aes_gcm_inverse W" "aes_gcm_authentic W"
    and "logInKeyToCryptoKey W k = Inr key" "logInKeyToCryptoKey W k' = Inr key'"
    and "key_data key \<noteq> key_data key'"
    and "logInKeyEncrypt W k u = Inr p" "logInKeyEncrypt W k' u = Inr p'"
  shows "p \<noteq> p'"
proof
  assume eq: "p = p'"
  from assms(6) assms(3) obtain c where
    e: "subtle_encrypt W zero_nonce_params key (TextEncoder_encode W u) = Inr c" and
    p: "p = arrayBufferToBase64 c"
    unfolding logInKeyEncrypt_Inr by auto
  from assms(7) assms(4) obtain c' where
    e': "subtle_encrypt W zero_nonce_params key' (TextEncoder_encode W u) = Inr c'" and
    p': "p' = arrayBufferToBase64 c'"
    unfolding logInKeyEncrypt_Inr by auto
  have cc: "c = c'" using eq p p' by (simp add: arrayBufferToBase64_inj)
  have "subtle_decrypt W zero_nonce_params key' c' = Inr (TextEncoder_encode W u)"
    using assms(1) e' unfolding aes_gcm_inverse_def by blast
  moreover have "\<exists>err. subtle_decrypt W zero_nonce_params key' c = Inl err"
    using assms(2) e assms(5) unfolding aes_gcm_authentic_def by metis
  ultimately show False using cc by auto
qed

text \<open>
  Claim C5. The proof derived from a key and a username depends on nothing else. On a browser
  whose cipher and text coding are inverse pairs and whose decryption fails under other key
  material: under one key, two derived proofs are the same text exactly when the usernames
  are the same; and the proofs of one username under two keys of different key material are
  different, so that comparing a valid proof with the derivation under the other key fails.
\<close>

theorem logInKeyEncrypt_determined_by_key_and_username:
  assumes "aes_gcm_inverse W" and "text_inverse W" and "aes_gcm_authentic W"
  shows "(\<forall>p p'. logInKeyEncrypt W k u = Inr p \<longrightarrow> logInKeyEncrypt W k u' = Inr p' \<longrightarrow>
            (p = p' \<longleftrightarrow> u = u')) \<and>
         (\<forall>key key' p p'.
            logInKeyToCryptoKey W k = Inr key \<longrightarrow> logInKeyToCryptoKey W k' = Inr key' \<longrightarrow>
            key_data key \<noteq> key_data key' \<longrightarrow>
            logInKeyEncrypt W k u = Inr p \<longrightarrow> logInKeyEncrypt W k' u = Inr p' \<longrightarrow> p \<noteq> p')"
  using proof_same_key[OF assms(1,2)] proof_other_key[OF assms(1,3)] by blast

theorem logInKeyEncrypt_determined_by_key_and_username_witness:
  "aes_gcm_inverse demo_browser \<and> text_inverse demo_browser \<and> aes_gcm_authentic demo_browser \<and>
   logInKeyEncrypt demo_browser demo_key ''alice'' = Inr ''YWxpY2UwMTIzNDU2Nzg5YWJjZGVm'' \<and>
   logInKeyEncrypt demo_browser demo_key ''iamyarn'' \<noteq> Inr ''YWxpY2UwMTIzNDU2Nzg5YWJjZGVm'' \<and>
   logInKeyEncrypt demo_browser demo_key2 ''alice'' \<noteq> Inr ''YWxpY2UwMTIzNDU2Nzg5YWJjZGVm''"
proof -
  note c5 = logInKeyEncrypt_determined_by_key_and_username
      [OF demo_aes_gcm_inverse demo_text_inverse demo_aes_gcm_authentic,
       of demo_key "''alice''" "''iamyarn''" demo_key2]
  have 1: "logInKeyEncrypt demo_browser demo_key ''iamyarn'' \<noteq> Inr ''YWxpY2UwMTIzNDU2Nzg5YWJjZGVm''"
    using c5 demo_proof_alice demo_proof_iamyarn by auto
  have 2: "logInKeyEncrypt demo_browser demo_key2 ''alice'' \<noteq> Inr ''YWxpY2UwMTIzNDU2Nzg5YWJjZGVm''"
  proof
    assume a: "logInKeyEncrypt demo_browser demo_key2 ''alice'' = Inr ''YWxpY2UwMTIzNDU2Nzg5YWJjZGVm''"
    from c5 have "\<forall>key key' p p'.
            logInKeyToCryptoKey demo_browser demo_key = Inr key \<longrightarrow>
            logInKeyToCryptoKey demo_browser demo_key2 = Inr key' \<longrightarrow>
            key_data key \<noteq> key_data key' \<longrightarrow>
            logInKeyEncrypt demo_browser demo_key ''alice'' = Inr p \<longrightarrow>
            logInKeyEncrypt demo_browser demo_key2 ''alice'' = Inr p' \<longrightarrow> p \<noteq> p'" by blast
    from this[rule_format, OF demo_logInKeyToCryptoKey demo_logInKeyToCryptoKey2 _ demo_proof_alice a]
    show False using demo_keys_differ by simp
  qed
  show ?thesis
    using 1 2 demo_aes_gcm_inverse demo_text_inverse demo_aes_gcm_authentic demo_proof_alice by simp
qed

lemma logInKeyEncrypt_not_Nil:
  assumes "aes_gcm_tagged W" "logInKeyEncrypt W k v = Inr c"
  shows "c \<noteq> []"
proof -
  from assms(2) obtain key encrypted where
    e: "subtle_encrypt W zero_nonce_params key (TextEncoder_encode W v) = Inr encrypted" and
    c: "c = arrayBufferToBase64 encrypted"
    unfolding logInKeyEncrypt_Inr by blast
  have "length encrypted = length (TextEncoder_encode W v) + 16"
    using assms(1) e unfolding aes_gcm_tagged_def by blast
  then have "encrypted \<noteq> []" by auto
  then show ?thesis unfolding c by (simp add: arrayBufferToBase64_Nil_iff)
qed

text \<open>
  Claim C8. On a browser whose AES-GCM ciphertext carries the 16 bytes of the tag, a derived
  proof is never the empty text; so no key logs in as a user record whose stored proof is
  empty, and in the initial snapshot, whose only user is the seeded \<open>iamyarn\<close> with the empty
  proof, no key logs anybody in.
\<close>

theorem seeded_user_never_logged_in:
  assumes "aes_gcm_tagged W"
  shows "(\<forall>c. logInKeyEncrypt W k v = Inr c \<longrightarrow> c \<noteq> []) \<and>
         (\<forall>u. onLogIn W s k = LoggedIn u \<longrightarrow> encryptedUsername u \<noteq> []) \<and>
         (\<forall>u. onLogIn W (initialAppState loadedAt) k \<noteq> LoggedIn u)"
proof (intro conjI allI impI)
  fix c assume "logInKeyEncrypt W k v = Inr c"
  then show "c \<noteq> []" by (rule logInKeyEncrypt_not_Nil[OF assms])
next
  fix u assume "onLogIn W s k = LoggedIn u"
  then have "logInKeyEncrypt W k (username u) = Inr (encryptedUsername u)"
    unfolding onLogIn_def using onLogIn_loop_LoggedIn by blast
  then show "encryptedUsername u \<noteq> []" by (rule logInKeyEncrypt_not_Nil[OF assms])
next
  fix u
  show "onLogIn W (initialAppState loadedAt) k \<noteq> LoggedIn u"
  proof
    assume "onLogIn W (initialAppState loadedAt) k = LoggedIn u"
    then have "u \<in> set (users (initialAppState loadedAt))"
      and "logInKeyEncrypt W k (username u) = Inr (encryptedUsername u)"
      unfolding onLogIn_def using onLogIn_loop_LoggedIn by blast+
    then have "logInKeyEncrypt W k ''iamyarn'' = Inr []"
      by (auto simp: initialAppState_def)
    then show False using logInKeyEncrypt_not_Nil[OF assms] by blast
  qed
qed

theorem seeded_user_never_logged_in_witness:
  "aes_gcm_tagged demo_browser \<and>
   logInKeyEncrypt demo_browser demo_key ''iamyarn'' = Inr ''aWFteWFybjAxMjM0NTY3ODlhYmNkZWY='' \<and>
   onLogIn demo_browser (initialAppState 0) demo_key = Alert ''Log in key is not valid.''"
proof -
  have "onLogIn demo_browser (initialAppState 0) demo_key = Alert ''Log in key is not valid.''"
    by (simp add: onLogIn_def initialAppState_def demo_proof_iamyarn)
  with seeded_user_never_logged_in[OF demo_aes_gcm_tagged, of demo_key "''iamyarn''" "initialAppState 0" 0]
  show ?thesis
    using demo_aes_gcm_tagged demo_proof_iamyarn by simp
qed

section \<open>Properties of liking a post\<close>

lemma find_split:
  "find P xs = Some x \<Longrightarrow> \<exists>pre post. xs = pre @ x # post \<and> (\<forall>y\<in>set pre. \<not> P y) \<and> P x"
proof (induction xs)
  case Nil
  then show ?case by simp
next
  case (Cons a xs)
  show ?case
  proof (cases "P a")
    case True
    with Cons.prems have "a = x" by simp
    with True show ?thesis by (intro exI[of _ "[]"] exI[of _ xs]) simp
  next
    case False
    with Cons obtain pre post where "xs = pre @ x # post" "\<forall>y\<in>set pre. \<not> P y" "P x" by auto
    with False show ?thesis by (intro exI[of _ "a # pre"] exI[of _ post]) simp
  qed
qed

lemma find_first:
  "(\<forall>y\<in>set pre. \<not> P y) \<Longrightarrow> P x \<Longrightarrow> find P (pre @ x # post) = Some x"
  by (induction pre) auto

lemma modifyFirst_split:
  "(\<forall>y\<in>set pre. \<not> P y) \<Longrightarrow> P x \<Longrightarrow> modifyFirst P f (pre @ x # post) = pre @ f x # post"
  by (induction pre) auto

lemma find_like_iff:
  "(\<exists>y. find (\<lambda>l. username u = like_username l) ls = Some y) \<longleftrightarrow>
     username u \<in> like_username ` set ls"
  by (induction ls) auto

lemma filter_flip:
  "filter (\<lambda>l. username u \<noteq> like_username l) ls = filter (\<lambda>l. like_username l \<noteq> username u) ls"
  by (rule filter_cong) auto

lemma getPost_Inr:
  "getPost s pid = Inr p \<Longrightarrow> find (\<lambda>q. postId q = pid) (allPosts s) = Some p"
  by (auto simp: getPost_def nullthrows_def split: option.splits)

lemma toggle_at:
  assumes "allPosts s = pre @ p # post" and "\<forall>q\<in>set pre. postId q \<noteq> pid" and "postId p = pid"
  shows "togglePostLike (Some u) t s pid =
       Updated (s\<lparr>allPosts := pre @ p\<lparr>likes := toggled_likes u t (likes p)\<rparr> # post\<rparr>)"
proof -
  have m: "\<And>f. modifyFirst (\<lambda>q. postId q = pid) f (allPosts s) = pre @ f p # post"
    unfolding assms(1) using assms(2,3) by (intro modifyFirst_split) auto
  have "find (\<lambda>q. postId q = pid) (allPosts s) = Some p"
    unfolding assms(1) using assms(2,3) by (intro find_first) auto
  then have g: "getPost s pid = Inr p"
    by (simp add: getPost_def nullthrows_def)
  show ?thesis
    unfolding togglePostLike_def
    by (simp add: g m find_like_iff toggled_likes_def filter_flip)
qed

lemma toggled_distinct:
  "distinct (map like_username ls) \<Longrightarrow> distinct (map like_username (toggled_likes u t ls))"
  by (auto simp: toggled_likes_def distinct_map_filter)

lemma toggled_others:
  "filter (\<lambda>l. like_username l \<noteq> username u) (toggled_likes u t ls) =
   filter (\<lambda>l. like_username l \<noteq> username u) ls"
  by (auto simp: toggled_likes_def)

lemma toggled_twice_set:
  "like_username ` set (toggled_likes u t' (toggled_likes u t ls)) = like_username ` set ls"
proof (cases "username u \<in> like_username ` set ls")
  case True
  then have 1: "toggled_likes u t ls = filter (\<lambda>l. like_username l \<noteq> username u) ls"
    by (simp add: toggled_likes_def)
  have 2: "username u \<notin> like_username ` set (filter (\<lambda>l. like_username l \<noteq> username u) ls)"
    by auto
  have 3: "toggled_likes u t' (toggled_likes u t ls) =
           filter (\<lambda>l. like_username l \<noteq> username u) ls @ [\<lparr>like_username = username u, likedAt = t'\<rparr>]"
    unfolding 1 using 2 by (simp only: toggled_likes_def if_False)
  show ?thesis unfolding 3 using True by force
next
  case False
  then have 1: "toggled_likes u t ls = ls @ [\<lparr>like_username = username u, likedAt = t\<rparr>]"
    by (simp add: toggled_likes_def)
  have 2: "filter (\<lambda>l. like_username l \<noteq> username u) ls = ls"
    using False by (force simp: filter_id_conv)
  show ?thesis unfolding 1 by (simp add: toggled_likes_def 2)
qed

lemma likes_once_toggle:
  assumes "allPosts s = pre @ p # post" and "likes_once s"
  shows "likes_once (s\<lparr>allPosts := pre @ p\<lparr>likes := toggled_likes u t (likes p)\<rparr> # post\<rparr>)"
  using assms by (simp add: likes_once_def toggled_distinct)

text \<open>
  Claim C9. For an acting user \<open>u\<close> and a post id that \<^verbatim>\<open>getPost\<close> finds, \<^verbatim>\<open>togglePostLike\<close>
  updates the first post \<open>p\<close> with that id and nothing else: if \<open>u\<close> is among the likers of \<open>p\<close>
  all like records of \<open>u\<close> are removed and none is added, otherwise one like record of \<open>u\<close> is
  appended. If nobody liked any post twice before, nobody does after. The like records of
  every other user are as before in every post. Toggling again gives every post its
  original set of likers back, with users, root posts and the rest of each post unchanged.
\<close>

theorem togglePostLike_toggles_one_like:
  assumes "getPost s pid = Inr p"
  shows "\<exists>pre post s' s''.
     allPosts s = pre @ p # post \<and> (\<forall>q\<in>set pre. postId q \<noteq> pid) \<and> postId p = pid \<and>
     togglePostLike (Some u) t s pid = Updated s' \<and>
     s' = s\<lparr>allPosts := pre @ p\<lparr>likes := toggled_likes u t (likes p)\<rparr> # post\<rparr> \<and>
     (likes_once s \<longrightarrow> likes_once s') \<and>
     map (\<lambda>q. filter (\<lambda>l. like_username l \<noteq> username u) (likes q)) (allPosts s') =
       map (\<lambda>q. filter (\<lambda>l. like_username l \<noteq> username u) (likes q)) (allPosts s) \<and>
     togglePostLike (Some u) t' s' pid = Updated s'' \<and>
     map likers (allPosts s'') = map likers (allPosts s) \<and>
     map (\<lambda>q. q\<lparr>likes := []\<rparr>) (allPosts s'') = map (\<lambda>q. q\<lparr>likes := []\<rparr>) (allPosts s) \<and>
     users s'' = users s \<and> rootPostIds s'' = rootPostIds s"
proof -
  obtain pre post where
    sp: "allPosts s = pre @ p # post" "\<forall>q\<in>set pre. postId q \<noteq> pid" "postId p = pid"
    using find_split[OF getPost_Inr[OF assms]] by blast
  define p' where "p' = p\<lparr>likes := toggled_likes u t (likes p)\<rparr>"
  define s' where "s' = s\<lparr>allPosts := pre @ p' # post\<rparr>"
  define p'' where "p'' = p'\<lparr>likes := toggled_likes u t' (likes p')\<rparr>"
  define s'' where "s'' = s'\<lparr>allPosts := pre @ p'' # post\<rparr>"
  have t1: "togglePostLike (Some u) t s pid = Updated s'"
    unfolding s'_def p'_def by (rule toggle_at[OF sp])
  have sp': "allPosts s' = pre @ p' # post" "postId p' = pid"
    by (simp_all add: s'_def p'_def sp)
  have t2: "togglePostLike (Some u) t' s' pid = Updated s''"
    unfolding s''_def p''_def by (rule toggle_at[OF sp'(1) sp(2) sp'(2)])
  have inv: "likes_once s \<longrightarrow> likes_once s'"
    unfolding s'_def p'_def using likes_once_toggle[OF sp(1)] by blast
  have oth: "map (\<lambda>q. filter (\<lambda>l. like_username l \<noteq> username u) (likes q)) (allPosts s') =
       map (\<lambda>q. filter (\<lambda>l. like_username l \<noteq> username u) (likes q)) (allPosts s)"
    by (simp add: s'_def p'_def sp toggled_others)
  have lk: "map likers (allPosts s'') = map likers (allPosts s)"
    by (simp add: s''_def p''_def s'_def p'_def sp likers_def toggled_twice_set)
  have rest: "map (\<lambda>q. q\<lparr>likes := []\<rparr>) (allPosts s'') = map (\<lambda>q. q\<lparr>likes := []\<rparr>) (allPosts s)"
    by (simp add: s''_def p''_def s'_def p'_def sp)
  have ur: "users s'' = users s" "rootPostIds s'' = rootPostIds s"
    by (simp_all add: s''_def s'_def)
  show ?thesis
    apply (rule exI[of _ pre], rule exI[of _ post], rule exI[of _ s'], rule exI[of _ s''])
    using sp t1 t2 inv oth lk rest ur by (simp add: s'_def p'_def)
qed

theorem togglePostLike_toggles_one_like_witness:
  "getPost demo_snapshot ''p1'' =
     Inr \<lparr>postId = ''p1'', post_username = ''root'', createdAt = 0, content = ''hello'',
          replyPostIds = [], likes = []\<rparr> \<and>
   likes_once demo_snapshot \<and>
   (\<exists>s'. togglePostLike (Some \<lparr>username = ''alice'', imageIndex = 1, encryptedUsername = ''x''\<rparr>) 5
            demo_snapshot ''p1'' = Updated s' \<and> likes_once s')"
proof -
  have g: "getPost demo_snapshot ''p1'' =
     Inr \<lparr>postId = ''p1'', post_username = ''root'', createdAt = 0, content = ''hello'',
          replyPostIds = [], likes = []\<rparr>"
    by (simp add: getPost_def nullthrows_def demo_snapshot_def)
  have l: "likes_once demo_snapshot"
    by (simp add: likes_once_def demo_snapshot_def)
  from togglePostLike_toggles_one_like
         [OF g, of "\<lparr>username = ''alice'', imageIndex = 1, encryptedUsername = ''x''\<rparr>" 5 6] l
  have "\<exists>s'. togglePostLike (Some \<lparr>username = ''alice'', imageIndex = 1, encryptedUsername = ''x''\<rparr>) 5
            demo_snapshot ''p1'' = Updated s' \<and> likes_once s'"
    by blast
  with g l show ?thesis by blast
qed

section \<open>Properties of loading\<close>

lemma base64ToArrayBuffer_keyed_link:
  "base64ToArrayBuffer ''QUJD:a2V5'' = Inl (DOMException ''InvalidCharacterError'')"
  by (simp add: base64ToArrayBuffer_def char_sextet_def base64_alphabet_def)

lemma decode_keyed_link_fails:
  "\<exists>e. appStateFromHashWithoutKey W ''QUJD:a2V5'' key = Inl e"
  unfolding appStateFromHashWithoutKey_def logInKeyDecrypt_def
  by (cases "logInKeyToCryptoKey W key") (simp_all add: base64ToArrayBuffer_keyed_link)

text \<open>
  When the first load cannot decode a keyed fragment, the alert is shown and the initial
  snapshot is installed.
\<close>

lemma initialLoad_failure:
  assumes "\<not> isLoadedRef st" "location_hash st \<noteq> []" "appStateHashHasKey (location_hash st)"
    and "appStateFromHashWithKey W (location_hash st) = Inl e"
  shows "initialLoad W loadedAt newKey st =
     st\<lparr>sessionKeyRef := Some newKey,
        alerts := alerts st @ [''Could not load thread. Something is wrong with the shared link.''],
        appStateValue := initialAppState loadedAt,
        isLoadedRef := True\<rparr>"
  using assms by (simp add: initialLoad_def Let_def)

text \<open>
  When a later change of the fragment cannot be decoded with the session key, the error goes
  to the console and everything else stays: no alert, and the snapshot shown before remains.
\<close>

lemma hashChanged_failure:
  assumes "isLoadedRef st" "location_hash st \<noteq> []" "sessionKeyRef st = Some key"
    and "appStateFromHashWithoutKey W (location_hash st) key = Inl e"
  shows "hashChanged W loadedAt st = st\<lparr>consoleErrors := consoleErrors st @ [e]\<rparr>"
  using assms by (simp add: hashChanged_def nullthrows_def)

text \<open>
  Claim C6 says that a decode failure at a change of the fragment reports an error and
  installs the initial snapshot. The code at such an input: a loaded page that shows a
  snapshot other than the initial one, and whose fragment is changed to a text that no
  browser decodes (a keyed link, whose \<open>:\<close> is no base64 character). The snapshot stays, no
  alert is shown, and one error is written to the console.
\<close>

theorem hashChanged_decode_failure_keeps_snapshot:
  "\<exists>e. hashChanged W loadedAt
          \<lparr>location_hash = ''QUJD:a2V5'', appStateValue = demo_snapshot, isLoadedRef = True,
           sessionKeyRef = Some key, alerts = [], consoleErrors = []\<rparr> =
        \<lparr>location_hash = ''QUJD:a2V5'', appStateValue = demo_snapshot, isLoadedRef = True,
         sessionKeyRef = Some key, alerts = [], consoleErrors = [e]\<rparr> \<and>
        demo_snapshot \<noteq> initialAppState loadedAt"
proof -
  obtain e where e: "appStateFromHashWithoutKey W ''QUJD:a2V5'' key = Inl e"
    using decode_keyed_link_fails by blast
  have "hashChanged W loadedAt
          \<lparr>location_hash = ''QUJD:a2V5'', appStateValue = demo_snapshot, isLoadedRef = True,
           sessionKeyRef = Some key, alerts = [], consoleErrors = []\<rparr> =
        \<lparr>location_hash = ''QUJD:a2V5'', appStateValue = demo_snapshot, isLoadedRef = True,
         sessionKeyRef = Some key, alerts = [], consoleErrors = [e]\<rparr>"
    by (simp add: hashChanged_def nullthrows_def e)
  moreover have "demo_snapshot \<noteq> initialAppState loadedAt"
    by (simp add: demo_snapshot_def initialAppState_def)
  ultimately show ?thesis by blast
qed

section \<open>Properties of new post ids\<close>

lemma find_postId_ex_iff:
  "(\<exists>y. find (\<lambda>q. postId q = x) ps = Some y) \<longleftrightarrow> x \<in> postId ` set ps"
  by (induction ps) auto

lemma find_postId_iff:
  "(find (\<lambda>q. postId q = x) ps \<noteq> None) \<longleftrightarrow> x \<in> postId ` set ps"
  using find_postId_ex_iff[of x ps] by simp

lemma generatePostId_from_step:
  "generatePostId_from rnd s i =
     (if drawnId rnd i \<in> postId ` set (allPosts s) then generatePostId_from rnd s (Suc i)
      else Some (drawnId rnd i))"
  by (subst generatePostId_from.simps) (simp only: find_postId_iff)

lemma generatePostId_from_Some:
  "generatePostId_from rnd s i = Some y \<Longrightarrow>
     \<exists>n\<ge>i. y = drawnId rnd n \<and> drawnId rnd n \<notin> postId ` set (allPosts s)"
proof (induction rule: generatePostId_from.raw_induct[rotated 1, consumes 1])
  case (1 gen rnd s i y)
  show ?case
  proof (cases "drawnId rnd i \<in> postId ` set (allPosts s)")
    case True
    with 1(2) have "gen rnd s (Suc i) = Some y" by (simp add: find_postId_ex_iff)
    from 1(1)[OF this] obtain n where "Suc i \<le> n" "y = drawnId rnd n"
      "drawnId rnd n \<notin> postId ` set (allPosts s)" by blast
    then show ?thesis by (intro exI[of _ n]) simp
  next
    case False
    with 1(2) have "y = drawnId rnd i" by (simp add: find_postId_ex_iff)
    with False show ?thesis by (intro exI[of _ i]) simp
  qed
qed

lemma generatePostId_from_fresh:
  assumes "generatePostId_from rnd s i = Some y"
  shows "y \<notin> postId ` set (allPosts s)"
proof -
  from generatePostId_from_Some[OF assms] obtain n where
    "y = drawnId rnd n" "drawnId rnd n \<notin> postId ` set (allPosts s)" by blast
  then show ?thesis by simp
qed

lemma generatePostId_from_draw:
  assumes "generatePostId_from rnd s i = Some y"
  shows "\<exists>n. drawnId rnd n \<notin> postId ` set (allPosts s)"
proof -
  from generatePostId_from_Some[OF assms] obtain n where
    "drawnId rnd n \<notin> postId ` set (allPosts s)" by blast
  then show ?thesis by blast
qed

lemma generatePostId_from_first:
  assumes "drawnId rnd n \<notin> postId ` set (allPosts s)"
    and "\<forall>m. i \<le> m \<and> m < n \<longrightarrow> drawnId rnd m \<in> postId ` set (allPosts s)"
    and "i \<le> n"
  shows "generatePostId_from rnd s i = Some (drawnId rnd n)"
  using assms
proof (induction "n - i" arbitrary: i)
  case 0
  then have "i = n" by simp
  with 0 show ?case by (subst generatePostId_from_step) simp
next
  case (Suc d)
  then have lt: "i < n" by simp
  with Suc.prems have used: "drawnId rnd i \<in> postId ` set (allPosts s)" by simp
  have "generatePostId_from rnd s (Suc i) = Some (drawnId rnd n)"
    using Suc lt by (intro Suc.hyps) auto
  with used show ?case by (subst generatePostId_from_step) simp
qed

lemma first_unused:
  assumes "drawnId rnd n \<notin> postId ` set (allPosts s)"
  shows "\<exists>k\<le>n. drawnId rnd k \<notin> postId ` set (allPosts s) \<and>
               (\<forall>m<k. drawnId rnd m \<in> postId ` set (allPosts s))"
proof -
  define k where "k = (LEAST k. drawnId rnd k \<notin> postId ` set (allPosts s))"
  have "drawnId rnd k \<notin> postId ` set (allPosts s)"
    unfolding k_def using assms by (rule LeastI)
  moreover have "k \<le> n" unfolding k_def using assms by (rule Least_le)
  moreover have "\<forall>m<k. drawnId rnd m \<in> postId ` set (allPosts s)"
    unfolding k_def using not_less_Least by blast
  ultimately show ?thesis by blast
qed

text \<open>
  An id that \<^verbatim>\<open>generatePostId\<close> returns is the id of no post of the snapshot. The loop
  returns exactly when the random bytes at some pass encode to an id that no post has, and
  it then returns the id of the first such pass.
\<close>

lemma generatePostId_first_unused_draw:
  "(\<forall>y. generatePostId rnd s = Some y \<longrightarrow> y \<notin> postId ` set (allPosts s)) \<and>
   ((\<exists>y. generatePostId rnd s = Some y) \<longleftrightarrow> (\<exists>n. drawnId rnd n \<notin> postId ` set (allPosts s))) \<and>
   (\<forall>n. drawnId rnd n \<notin> postId ` set (allPosts s) \<and>
        (\<forall>m<n. drawnId rnd m \<in> postId ` set (allPosts s)) \<longrightarrow>
        generatePostId rnd s = Some (drawnId rnd n))"
proof (intro conjI allI impI iffI)
  fix y assume "generatePostId rnd s = Some y"
  then show "y \<notin> postId ` set (allPosts s)"
    unfolding generatePostId_def by (rule generatePostId_from_fresh)
next
  assume "\<exists>y. generatePostId rnd s = Some y"
  then obtain y where "generatePostId_from rnd s 0 = Some y"
    unfolding generatePostId_def by blast
  then show "\<exists>n. drawnId rnd n \<notin> postId ` set (allPosts s)"
    by (rule generatePostId_from_draw)
next
  assume "\<exists>n. drawnId rnd n \<notin> postId ` set (allPosts s)"
  then obtain n where "drawnId rnd n \<notin> postId ` set (allPosts s)" by blast
  from first_unused[OF this] obtain k where
    "drawnId rnd k \<notin> postId ` set (allPosts s)" "\<forall>m<k. drawnId rnd m \<in> postId ` set (allPosts s)"
    by blast
  then have "generatePostId rnd s = Some (drawnId rnd k)"
    unfolding generatePostId_def by (intro generatePostId_from_first) auto
  then show "\<exists>y. generatePostId rnd s = Some y" by blast
next
  fix n
  assume "drawnId rnd n \<notin> postId ` set (allPosts s) \<and>
          (\<forall>m<n. drawnId rnd m \<in> postId ` set (allPosts s))"
  then show "generatePostId rnd s = Some (drawnId rnd n)"
    unfolding generatePostId_def by (intro generatePostId_from_first) auto
qed

lemma pass_bytes: "map rnd [3 * n ..< 3 * n + 3] = [rnd (3 * n), rnd (3 * n + 1), rnd (3 * n + 2)]"
  by (simp add: upt_rec[of "3 * n"] upt_rec[of "Suc (3 * n)"] upt_rec[of "Suc (Suc (3 * n))"])

lemma counting_pass:
  "map counting_source [3 * n ..< 3 * n + 3] = [of_nat (n div 65536), of_nat (n div 256), of_nat n]"
proof -
  have 0: "counting_source (3 * n) = of_nat (n div 65536)"
    by (simp add: counting_source_def)
  have "(3 * n + 1) div 3 = n" "(3 * n + 1) mod 3 = 1" by presburger+
  then have 1: "counting_source (3 * n + 1) = of_nat (n div 256)"
    by (simp add: counting_source_def)
  have "(3 * n + 2) div 3 = n" "(3 * n + 2) mod 3 = 2" by presburger+
  then have 2: "counting_source (3 * n + 2) = of_nat n"
    by (simp add: counting_source_def)
  show ?thesis unfolding pass_bytes 0 1 2 ..
qed

lemma counting_source_fair: "fair_source counting_source"
  unfolding fair_source_def
proof (intro allI)
  fix a b c :: "8 word"
  define n where "n = unat a * 65536 + unat b * 256 + unat c"
  have la: "unat a < 256" and lb: "unat b < 256" and lc: "unat c < 256"
    using unsigned_less[of a] unsigned_less[of b] unsigned_less[of c] by simp_all
  have d1: "n div 65536 = unat a"
    unfolding n_def using lb lc by simp
  have d2: "n div 256 = unat a * 256 + unat b"
    unfolding n_def using lc by simp
  have z: "(256 :: 8 word) = 0" "(65536 :: 8 word) = 0" by simp_all
  have 1: "(of_nat (n div 65536) :: 8 word) = a" unfolding d1 by simp
  have 2: "(of_nat (n div 256) :: 8 word) = b" unfolding d2 by (simp add: z)
  have 3: "(of_nat n :: 8 word) = c" unfolding n_def by (simp add: z)
  have "map counting_source [3 * n ..< 3 * n + 3] = [a, b, c]"
    unfolding counting_pass 1 2 3 ..
  then show "\<exists>n. map counting_source [3 * n ..< 3 * n + 3] = [a, b, c]" by (rule exI)
qed

lemma counting_draw_0: "drawnId counting_source 0 = ''AAAA''"
proof -
  have "map counting_source [3 * 0 ..< 3 * 0 + 3] = [0, 0, 0]"
    unfolding counting_pass by simp
  then show ?thesis unfolding drawnId_def by (simp only: btoa_000)
qed

lemma counting_draw_1: "drawnId counting_source 1 = ''AAAB''"
proof -
  have "map counting_source [3 * 1 ..< 3 * 1 + 3] = [0, 0, 1]"
    unfolding counting_pass by simp
  then show ?thesis unfolding drawnId_def by (simp only: btoa_001)
qed

lemma fair_draws_unused:
  assumes "fair_source rnd"
    and "btoa (String_fromCharCode [a, b, c]) \<notin> postId ` set (allPosts s)"
  shows "\<exists>n. drawnId rnd n \<notin> postId ` set (allPosts s)"
proof -
  from assms(1) have "\<exists>n. map rnd [3 * n ..< 3 * n + 3] = [a, b, c]"
    by (simp only: fair_source_def)
  then obtain n where "map rnd [3 * n ..< 3 * n + 3] = [a, b, c]" ..
  then have eq: "drawnId rnd n = btoa (String_fromCharCode [a, b, c])"
    by (simp only: drawnId_def)
  have "drawnId rnd n \<notin> postId ` set (allPosts s)"
    unfolding eq by (rule assms(2))
  then show ?thesis by (rule exI)
qed

text \<open>
  Claim C10. An id that \<^verbatim>\<open>generatePostId\<close> returns differs from the id of every post of the
  snapshot. Over random bytes that draw every value of the three bytes at some pass, the
  retry loop ends, and returns such an id, whenever at least one id of the three-byte id
  space is the id of no post.
\<close>

theorem generatePostId_returns_fresh_id:
  "(\<forall>y. generatePostId rnd s = Some y \<longrightarrow> y \<notin> postId ` set (allPosts s)) \<and>
   (fair_source rnd \<longrightarrow>
      (\<exists>a b c. btoa (String_fromCharCode [a, b, c]) \<notin> postId ` set (allPosts s)) \<longrightarrow>
      (\<exists>y. generatePostId rnd s = Some y \<and> y \<notin> postId ` set (allPosts s)))"
proof (intro conjI allI impI)
  fix y assume "generatePostId rnd s = Some y"
  then show "y \<notin> postId ` set (allPosts s)"
    unfolding generatePostId_def by (rule generatePostId_from_fresh)
next
  assume f: "fair_source rnd"
    and "\<exists>a b c. btoa (String_fromCharCode [a, b, c]) \<notin> postId ` set (allPosts s)"
  then obtain a b c where "btoa (String_fromCharCode [a, b, c]) \<notin> postId ` set (allPosts s)"
    by (elim exE)
  from fair_draws_unused[OF f this] obtain n where
    "drawnId rnd n \<notin> postId ` set (allPosts s)" by blast
  from first_unused[OF this] obtain k where
    k: "drawnId rnd k \<notin> postId ` set (allPosts s)" "\<forall>m<k. drawnId rnd m \<in> postId ` set (allPosts s)"
    by blast
  then have "generatePostId rnd s = Some (drawnId rnd k)"
    unfolding generatePostId_def by (intro generatePostId_from_first) auto
  with k(1) show "\<exists>y. generatePostId rnd s = Some y \<and> y \<notin> postId ` set (allPosts s)"
    by (intro exI[of _ "drawnId rnd k"] conjI)
qed

theorem generatePostId_returns_fresh_id_witness:
  "fair_source counting_source \<and>
   btoa (String_fromCharCode [0, 0, 1]) \<notin> postId ` set (allPosts demo_taken) \<and>
   generatePostId counting_source demo_taken = Some ''AAAB''"
proof -
  have u: "btoa (String_fromCharCode [0, 0, 1]) \<notin> postId ` set (allPosts demo_taken)"
    unfolding btoa_001 by (simp add: demo_taken_def)
  from generatePostId_returns_fresh_id[of counting_source demo_taken] counting_source_fair u
  obtain y where y: "generatePostId counting_source demo_taken = Some y" by blast
  have 1: "drawnId counting_source 1 \<notin> postId ` set (allPosts demo_taken)"
    unfolding counting_draw_1 by (simp add: demo_taken_def)
  have 0: "\<forall>m. 0 \<le> m \<and> m < 1 \<longrightarrow> drawnId counting_source m \<in> postId ` set (allPosts demo_taken)"
    by (simp add: counting_draw_0 demo_taken_def)
  have "generatePostId counting_source demo_taken = Some (drawnId counting_source 1)"
    unfolding generatePostId_def by (rule generatePostId_from_first[OF 1 0]) simp
  then have "generatePostId counting_source demo_taken = Some ''AAAB''"
    unfolding counting_draw_1 .
  with y u counting_source_fair show ?thesis by simp
qed

end
